theory Spec2Isabelle
  imports Main
begin

section \<open>Data model (types/chat.ts)\<close>

text \<open>
  A JavaScript string is a sequence of UTF-16 code units; \<open>length\<close>, \<open>substring\<close>,
  \<open>startsWith\<close>, \<open>slice\<close> and \<open>split\<close> all count code units. A \<^typ>\<open>string\<close> here is that
  sequence, one \<^typ>\<open>char\<close> per code unit. \<open>Date.now()\<close> returns an integer number of
  milliseconds, so timestamps are of type \<^typ>\<open>int\<close>.

  The two interfaces both have a field \<open>id\<close>; the records name them \<open>mid\<close> (message) and
  \<open>sid\<close> (session). The field \<open>text\<close> of a message is \<open>mtext\<close>.
\<close>

record ChatMessage =
  mid :: string
  mtext :: string
  isUser :: bool
  timestamp :: int

record ChatSession =
  sid :: string
  title :: string
  messages :: "ChatMessage list"
  createdAt :: int
  updatedAt :: int

section \<open>Session factory (utils/chatHistory.ts)\<close>

text \<open>Template literals render a number in decimal.\<close>

fun show_nat :: "nat \<Rightarrow> string" where
  "show_nat n =
     (if n < 10 then [char_of (48 + n)]
      else show_nat (n div 10) @ [char_of (48 + n mod 10)])"

declare show_nat.simps [simp del]

definition show_int :: "int \<Rightarrow> string" where
  "show_int i = (if i < 0 then CHR ''-'' # show_nat (nat (- i)) else show_nat (nat i))"

text \<open>
  \<open>createNewChatSession\<close> reads the clock once; the reading is the parameter \<open>now\<close>.
\<close>

definition createNewChatSession :: "int \<Rightarrow> ChatSession" where
  "createNewChatSession now =
     \<lparr> sid = ''chat-'' @ show_int now,
       title = ''New Chat'',
       messages = [],
       createdAt = now,
       updatedAt = now \<rparr>"

text \<open>
  \<open>generateMessageId\<close> reads the clock and draws a random suffix
  (\<open>Math.random().toString(36).substring(2, 9)\<close>); both are parameters.
\<close>

definition generateMessageId :: "int \<Rightarrow> string \<Rightarrow> string" where
  "generateMessageId now suffix = ''msg-'' @ show_int now @ ''-'' @ suffix"

section \<open>Chat history manager (components/ChatHistoryProvider.tsx)\<close>

record manager =
  chatSessions :: "ChatSession list"
  currentChatSessionId :: "string option"
  isLoading :: bool

text \<open>
  The state before the mount effect has run: \<open>useState([])\<close>, \<open>useState(null)\<close>,
  \<open>useState(true)\<close>.
\<close>

definition initial_manager :: manager where
  "initial_manager = \<lparr> chatSessions = [], currentChatSessionId = None, isLoading = True \<rparr>"

text \<open>
  The guard \<open>if (!currentChatSessionId) return\<close> tests JavaScript truthiness: it holds for
  \<open>null\<close> and for the empty string.
\<close>

definition falsy_id :: "string option \<Rightarrow> bool" where
  "falsy_id cur = (case cur of None \<Rightarrow> True | Some s \<Rightarrow> s = [])"

text \<open>
  The mount effect. \<open>history\<close> is what \<open>loadChatHistory()\<close> returned and \<open>now\<close> the clock
  reading of \<open>createNewChatSession\<close> (used only when the history is empty).
\<close>

definition initialize :: "ChatSession list \<Rightarrow> int \<Rightarrow> manager \<Rightarrow> manager" where
  "initialize history now st =
     (case history of
        h # _ \<Rightarrow> st \<lparr> chatSessions := history, currentChatSessionId := Some (sid h),
                    isLoading := False \<rparr>
      | [] \<Rightarrow> (let newSession = createNewChatSession now
               in st \<lparr> chatSessions := [newSession],
                       currentChatSessionId := Some (sid newSession),
                       isLoading := False \<rparr>))"

text \<open>\<open>startNewChat\<close> also shows the toast "New chat started!", which is not manager state.\<close>

definition startNewChat :: "int \<Rightarrow> manager \<Rightarrow> manager" where
  "startNewChat now st =
     (let newSession = createNewChatSession now
      in st \<lparr> chatSessions := newSession # chatSessions st,
              currentChatSessionId := Some (sid newSession) \<rparr>)"

definition selectChatSession :: "string \<Rightarrow> manager \<Rightarrow> manager" where
  "selectChatSession sessionId st = st \<lparr> currentChatSessionId := Some sessionId \<rparr>"

text \<open>
  The title rule of \<open>addMessageToCurrentChat\<close>:
  \<open>text.substring(0, 30) + (text.length > 30 ? "..." : "")\<close>.
\<close>

definition title_of :: "string \<Rightarrow> string" where
  "title_of txt = take 30 txt @ (if length txt > 30 then ''...'' else '''')"

text \<open>
  The function mapped over the sessions by \<open>addMessageToCurrentChat\<close>. \<open>upd\<close> is the clock
  reading of \<open>updatedAt: Date.now()\<close>; one reading serves every session that carries the
  current id.
\<close>

definition add_to_session ::
  "string option \<Rightarrow> ChatMessage \<Rightarrow> int \<Rightarrow> string \<Rightarrow> bool \<Rightarrow> ChatSession \<Rightarrow> ChatSession" where
  "add_to_session cur newMessage upd txt isUsr session =
     (if Some (sid session) = cur
      then session \<lparr> messages := messages session @ [newMessage],
                     updatedAt := upd,
                     title := (if length (messages session) = 0 \<and> isUsr
                               then title_of txt else title session) \<rparr>
      else session)"

text \<open>
  \<open>newId\<close> is the result of \<open>generateMessageId()\<close>, \<open>ts\<close> the clock reading of
  \<open>timestamp: Date.now()\<close>.
\<close>

definition addMessageToCurrentChat ::
  "string \<Rightarrow> int \<Rightarrow> int \<Rightarrow> string \<Rightarrow> bool \<Rightarrow> manager \<Rightarrow> manager" where
  "addMessageToCurrentChat newId ts upd txt isUsr st =
     (if falsy_id (currentChatSessionId st) then st
      else
        let newMessage = \<lparr> mid = newId, mtext = txt, isUser = isUsr, timestamp = ts \<rparr>
        in st \<lparr> chatSessions :=
                  map (add_to_session (currentChatSessionId st) newMessage upd txt isUsr)
                      (chatSessions st) \<rparr>)"

text \<open>
  The function mapped over the sessions by \<open>updateLastAIMessage\<close>. The index
  \<open>session.messages.length - 1\<close> is \<open>-1\<close> on an empty sequence, which the guard
  \<open>lastMessageIndex >= 0\<close> excludes before the read.
\<close>

definition update_in_session ::
  "string option \<Rightarrow> int \<Rightarrow> int \<Rightarrow> string \<Rightarrow> ChatSession \<Rightarrow> ChatSession" where
  "update_in_session cur ts upd newText session =
     (if Some (sid session) = cur
      then
        let lastMessageIndex = int (length (messages session)) - 1
        in if lastMessageIndex \<ge> 0 \<and> \<not> isUser (messages session ! nat lastMessageIndex)
           then session \<lparr> messages :=
                            (messages session)
                              [nat lastMessageIndex :=
                                 (messages session ! nat lastMessageIndex)
                                   \<lparr> mtext := newText, timestamp := ts \<rparr>],
                          updatedAt := upd \<rparr>
           else session
      else session)"

definition updateLastAIMessage :: "int \<Rightarrow> int \<Rightarrow> string \<Rightarrow> manager \<Rightarrow> manager" where
  "updateLastAIMessage ts upd newText st =
     (if falsy_id (currentChatSessionId st) then st
      else st \<lparr> chatSessions :=
                  map (update_in_session (currentChatSessionId st) ts upd newText)
                      (chatSessions st) \<rparr>)"

text \<open>
  \<open>chatSessions.find(session => session.id === currentChatSessionId)?.messages || []\<close>:
  the first session with the current id. An array is truthy even when empty.
\<close>

definition currentChatMessages :: "manager \<Rightarrow> ChatMessage list" where
  "currentChatMessages st =
     (case find (\<lambda>session. Some (sid session) = currentChatSessionId st) (chatSessions st) of
        Some session \<Rightarrow> messages session
      | None \<Rightarrow> [])"

text \<open>
  The operations the presentation layer can invoke on a mounted manager, each with the clock
  readings and the message id its call draws, and the sequential run of a list of them.
\<close>

datatype operation =
    StartNewChat int
  | SelectChatSession string
  | AddMessage string int int string bool
  | UpdateLastAIMessage int int string

fun apply_operation :: "operation \<Rightarrow> manager \<Rightarrow> manager" where
  "apply_operation (StartNewChat now) st = startNewChat now st"
| "apply_operation (SelectChatSession sessionId) st = selectChatSession sessionId st"
| "apply_operation (AddMessage newId ts upd txt isUsr) st =
     addMessageToCurrentChat newId ts upd txt isUsr st"
| "apply_operation (UpdateLastAIMessage ts upd newText) st =
     updateLastAIMessage ts upd newText st"

fun run :: "operation list \<Rightarrow> manager \<Rightarrow> manager" where
  "run [] st = st"
| "run (x # xs) st = run xs (apply_operation x st)"

text \<open>The session ids present in a state, and whether the current id is one of them.\<close>

definition session_ids :: "manager \<Rightarrow> string set" where
  "session_ids st = set (map sid (chatSessions st))"

definition current_exists :: "manager \<Rightarrow> bool" where
  "current_exists st =
     (case currentChatSessionId st of None \<Rightarrow> True | Some x \<Rightarrow> x \<in> session_ids st)"

text \<open>
  A run in which every \<open>selectChatSession\<close> is given the id of a session present when it is
  called, as the sidebar does (it passes \<open>session.id\<close> of a listed session).
\<close>

fun selects_listed :: "operation list \<Rightarrow> manager \<Rightarrow> bool" where
  "selects_listed [] st = True"
| "selects_listed (x # xs) st =
     ((case x of SelectChatSession sessionId \<Rightarrow> sessionId \<in> session_ids st | _ \<Rightarrow> True)
      \<and> selects_listed xs (apply_operation x st))"

text \<open>
  A sequence of \<open>addMessageToCurrentChat\<close> calls, each given as the message id it draws,
  its two clock readings, the text and the \<open>isUser\<close> flag.
\<close>

type_synonym add_call = "string \<times> int \<times> int \<times> string \<times> bool"

fun add_all :: "add_call list \<Rightarrow> manager \<Rightarrow> manager" where
  "add_all [] st = st"
| "add_all ((newId, ts, upd, txt, isUsr) # cs) st =
     add_all cs (addMessageToCurrentChat newId ts upd txt isUsr st)"

section \<open>Persistent store adapter (utils/chatHistory.ts)\<close>

text \<open>
  \<open>window\<close> may be undefined (no browser). \<open>localStorage\<close> holds string items; its methods
  raise when access is blocked, and \<open>setItem\<close> raises when the quota is exceeded. Both
  conditions belong to the platform and are flags of the store.
\<close>

record localStorage =
  items :: "string \<rightharpoonup> string"
  blocked :: bool
  full :: bool

datatype window = NoWindow | Window localStorage

definition CHAT_HISTORY_KEY :: string where
  "CHAT_HISTORY_KEY = ''hikari_chat_history''"

text \<open>
  \<open>JSON.parse\<close> and \<open>JSON.stringify\<close> are platform functions and are parameters of the
  two functions (the next section gives their model): \<open>parse\<close> returns \<open>None\<close> where
  \<open>JSON.parse\<close> raises. The \<open>catch\<close> of \<open>loadChatHistory\<close> returns the empty history (and
  writes to the console); \<open>history ? ... : []\<close> is false for \<open>null\<close> and for the empty
  string.
\<close>

definition loadChatHistory :: "(string \<Rightarrow> ChatSession list option) \<Rightarrow> window \<Rightarrow> ChatSession list" where
  "loadChatHistory parse w =
     (case w of
        NoWindow \<Rightarrow> []
      | Window ls \<Rightarrow>
          if blocked ls then []
          else (case items ls CHAT_HISTORY_KEY of
                  None \<Rightarrow> []
                | Some history \<Rightarrow>
                    if history = [] then []
                    else (case parse history of None \<Rightarrow> [] | Some h \<Rightarrow> h)))"

definition saveChatHistory :: "(ChatSession list \<Rightarrow> string) \<Rightarrow> ChatSession list \<Rightarrow> window \<Rightarrow> window" where
  "saveChatHistory stringify history w =
     (case w of
        NoWindow \<Rightarrow> w
      | Window ls \<Rightarrow>
          if blocked ls \<or> full ls then w
          else Window (ls \<lparr> items := (items ls)(CHAT_HISTORY_KEY \<mapsto> stringify history) \<rparr>))"

section \<open>JSON texts (the platform functions behind the store adapter)\<close>

text \<open>
  \<open>JSON.stringify\<close> and \<open>JSON.parse\<close> belong to the platform, not to the repository. This
  section gives them a model, so that what \<open>saveChatHistory\<close> writes and \<open>loadChatHistory\<close>
  reads can be computed: the serialisation follows ECMA-262 (\<open>SerializeJSONProperty\<close>,
  \<open>QuoteJSONString\<close>, no indentation), the parser follows the JSON grammar of ECMA-404.
  The model has these bounds:
  \<^item> a number is an integer, as every \<open>Date.now()\<close> reading is; its text is the decimal
    numeral (JavaScript's text for every integer of magnitude below \<open>10\<^sup>2\<^sup>1\<close>), and the
    parser has no value for a numeral with a fraction or an exponent;
  \<^item> a character is one of the 256 values of \<^typ>\<open>char\<close>, so the parser has no value for a
    four-digit escape above \<open>00ff\<close>;
  \<^item> an object is the list of its properties in the order of the text.
\<close>

subsection \<open>Values and their serialisation\<close>

datatype json =
    JNull
  | JBool bool
  | JNumber int
  | JString string
  | JArray "json list"
  | JObject "(string \<times> json) list"

text \<open>
  \<open>QuoteJSONString\<close>: the quotation mark and the backslash are written after a backslash;
  a control character below \<open>0x20\<close> is written as a backslash and \<open>b\<close>, \<open>t\<close>, \<open>n\<close>,
  \<open>f\<close> or \<open>r\<close> (backspace, tab, line feed, form feed, carriage return) or else as a
  backslash, \<open>u00\<close> and two lower-case hexadecimal digits; every other character stands
  for itself.
\<close>

definition hex_digit :: "nat \<Rightarrow> char" where
  "hex_digit d = (if d < 10 then char_of (48 + d) else char_of (87 + d))"

definition escape_char :: "char \<Rightarrow> string" where
  "escape_char c =
     (if c = CHR 0x22 then [CHR 0x5C, CHR 0x22]
      else if c = CHR 0x5C then [CHR 0x5C, CHR 0x5C]
      else if c = CHR 0x08 then [CHR 0x5C, CHR ''b'']
      else if c = CHR 0x09 then [CHR 0x5C, CHR ''t'']
      else if c = CHR 0x0A then [CHR 0x5C, CHR ''n'']
      else if c = CHR 0x0C then [CHR 0x5C, CHR ''f'']
      else if c = CHR 0x0D then [CHR 0x5C, CHR ''r'']
      else if (of_char c :: nat) < 32
        then [CHR 0x5C, CHR ''u'', CHR ''0'', CHR ''0'',
              hex_digit (of_char c div 16), hex_digit (of_char c mod 16)]
      else [c])"

definition quote :: "string \<Rightarrow> string" where
  "quote s = CHR 0x22 # concat (map escape_char s) @ [CHR 0x22]"

text \<open>The members of an array or object are separated by commas, without white space.\<close>

fun separate :: "string list \<Rightarrow> string" where
  "separate [] = []"
| "separate [x] = x"
| "separate (x # y # ys) = x @ CHR '','' # separate (y # ys)"

fun stringify_value :: "json \<Rightarrow> string" where
  "stringify_value JNull = ''null''"
| "stringify_value (JBool b) = (if b then ''true'' else ''false'')"
| "stringify_value (JNumber i) = show_int i"
| "stringify_value (JString s) = quote s"
| "stringify_value (JArray vs) = CHR ''['' # separate (map stringify_value vs) @ [CHR '']'']"
| "stringify_value (JObject kvs) =
     CHR ''{'' # separate (map (\<lambda>(k, v). quote k @ CHR '':'' # stringify_value v) kvs) @ [CHR ''}'']"

subsection \<open>The parser\<close>

text \<open>White space is space, tab, line feed and carriage return.\<close>

definition is_ws :: "char \<Rightarrow> bool" where
  "is_ws c = (c = CHR 0x20 \<or> c = CHR 0x09 \<or> c = CHR 0x0A \<or> c = CHR 0x0D)"

fun skip_ws :: "string \<Rightarrow> string" where
  "skip_ws [] = []"
| "skip_ws (c # cs) = (if is_ws c then skip_ws cs else c # cs)"

text \<open>
  The characters of a string after its opening quotation mark, up to the closing one. An
  escape is a backslash followed by a quotation mark, a backslash, a slash, one of \<open>b\<close>,
  \<open>f\<close>, \<open>n\<close>, \<open>r\<close>, \<open>t\<close>, or \<open>u\<close> with four hexadecimal digits of either case; a
  control character below \<open>0x20\<close> is not allowed. The result is the string and the rest
  of the text.
\<close>

definition hex_value :: "char \<Rightarrow> nat option" where
  "hex_value c =
     (let n = (of_char c :: nat)
      in if 48 \<le> n \<and> n \<le> 57 then Some (n - 48)
         else if 97 \<le> n \<and> n \<le> 102 then Some (n - 87)
         else if 65 \<le> n \<and> n \<le> 70 then Some (n - 55)
         else None)"

definition unescape :: "char \<Rightarrow> char option" where
  "unescape e =
     (if e = CHR 0x22 then Some (CHR 0x22)
      else if e = CHR 0x5C then Some (CHR 0x5C)
      else if e = CHR ''/'' then Some (CHR ''/'')
      else if e = CHR ''b'' then Some (CHR 0x08)
      else if e = CHR ''f'' then Some (CHR 0x0C)
      else if e = CHR ''n'' then Some (CHR 0x0A)
      else if e = CHR ''r'' then Some (CHR 0x0D)
      else if e = CHR ''t'' then Some (CHR 0x09)
      else None)"

definition unicode_escape :: "string \<Rightarrow> char option" where
  "unicode_escape hs =
     (case map hex_value hs of
        [Some a, Some b, Some c, Some d] \<Rightarrow>
          (let n = ((a * 16 + b) * 16 + c) * 16 + d
           in if n < 256 then Some (char_of n) else None)
      | _ \<Rightarrow> None)"

fun parse_chars :: "string \<Rightarrow> (string \<times> string) option" where
  "parse_chars [] = None"
| "parse_chars (c # cs) =
     (if c = CHR 0x22 then Some ([], cs)
      else if c = CHR 0x5C
      then (case cs of
              [] \<Rightarrow> None
            | e # cs' \<Rightarrow>
                if e = CHR ''u''
                then (case unicode_escape (take 4 cs') of
                        None \<Rightarrow> None
                      | Some ch \<Rightarrow> map_option (apfst ((#) ch)) (parse_chars (drop 4 cs')))
                else (case unescape e of
                        None \<Rightarrow> None
                      | Some ch \<Rightarrow> map_option (apfst ((#) ch)) (parse_chars cs')))
      else if (of_char c :: nat) < 32 then None
      else map_option (apfst ((#) c)) (parse_chars cs))"

text \<open>
  A numeral: an optional minus sign, then \<open>0\<close> alone or a digit from 1 to 9 followed by
  digits. What follows must not continue the numeral.
\<close>

definition is_digit :: "char \<Rightarrow> bool" where
  "is_digit c = (48 \<le> (of_char c :: nat) \<and> (of_char c :: nat) \<le> 57)"

fun read_digits :: "nat \<Rightarrow> string \<Rightarrow> nat \<times> string" where
  "read_digits acc [] = (acc, [])"
| "read_digits acc (c # cs) =
     (if is_digit c then read_digits (10 * acc + (of_char c - 48)) cs else (acc, c # cs))"

definition ends_number :: "string \<Rightarrow> bool" where
  "ends_number cs =
     (case cs of
        [] \<Rightarrow> True
      | c # _ \<Rightarrow> \<not> is_digit c \<and> c \<noteq> CHR ''.'' \<and> c \<noteq> CHR ''e'' \<and> c \<noteq> CHR ''E'')"

definition parse_unsigned :: "string \<Rightarrow> (nat \<times> string) option" where
  "parse_unsigned cs =
     (case cs of
        [] \<Rightarrow> None
      | d # r \<Rightarrow>
          if \<not> is_digit d then None
          else
            let (n, rest) = (if d = CHR ''0'' then (0, r) else read_digits 0 cs)
            in if ends_number rest then Some (n, rest) else None)"

definition parse_number :: "string \<Rightarrow> (int \<times> string) option" where
  "parse_number cs =
     (case cs of
        [] \<Rightarrow> None
      | c # r \<Rightarrow>
          if c = CHR ''-'' then map_option (apfst (\<lambda>n. - int n)) (parse_unsigned r)
          else map_option (apfst int) (parse_unsigned cs))"

text \<open>
  A value, the elements of a non-empty array up to its closing bracket, and the members of
  a non-empty object up to its closing brace. Each takes the text at the first character of
  what it reads and returns the rest. The first argument bounds the number of nested calls.
  A well-formed text needs at most as many as it has characters (every array, object,
  element and member accounts for a bracket, brace or comma of its own), and \<open>parse_json\<close>
  starts with the length of the text.
\<close>

fun parse_value :: "nat \<Rightarrow> string \<Rightarrow> (json \<times> string) option"
  and parse_elements :: "nat \<Rightarrow> string \<Rightarrow> (json list \<times> string) option"
  and parse_members :: "nat \<Rightarrow> string \<Rightarrow> ((string \<times> json) list \<times> string) option" where
  "parse_value 0 cs = None"
| "parse_value (Suc n) cs =
     (case cs of
        [] \<Rightarrow> None
      | c # r \<Rightarrow>
          if c = CHR 0x22 then map_option (apfst JString) (parse_chars r)
          else if c = CHR ''[''
          then (case skip_ws r of
                  [] \<Rightarrow> None
                | c' # r' \<Rightarrow>
                    if c' = CHR '']'' then Some (JArray [], r')
                    else map_option (apfst JArray) (parse_elements n (c' # r')))
          else if c = CHR ''{''
          then (case skip_ws r of
                  [] \<Rightarrow> None
                | c' # r' \<Rightarrow>
                    if c' = CHR ''}'' then Some (JObject [], r')
                    else map_option (apfst JObject) (parse_members n (c' # r')))
          else if take 4 cs = ''true'' then Some (JBool True, drop 4 cs)
          else if take 5 cs = ''false'' then Some (JBool False, drop 5 cs)
          else if take 4 cs = ''null'' then Some (JNull, drop 4 cs)
          else map_option (apfst JNumber) (parse_number cs))"
| "parse_elements 0 cs = None"
| "parse_elements (Suc n) cs =
     (case parse_value n cs of
        None \<Rightarrow> None
      | Some (v, r) \<Rightarrow>
          (case skip_ws r of
             [] \<Rightarrow> None
           | c # r' \<Rightarrow>
               if c = CHR '']'' then Some ([v], r')
               else if c = CHR '',''
               then map_option (apfst ((#) v)) (parse_elements n (skip_ws r'))
               else None))"
| "parse_members 0 cs = None"
| "parse_members (Suc n) cs =
     (case cs of
        [] \<Rightarrow> None
      | q # r \<Rightarrow>
          if q \<noteq> CHR 0x22 then None
          else (case parse_chars r of
                  None \<Rightarrow> None
                | Some (k, r1) \<Rightarrow>
                    (case skip_ws r1 of
                       [] \<Rightarrow> None
                     | c # r2 \<Rightarrow>
                         if c \<noteq> CHR '':'' then None
                         else (case parse_value n (skip_ws r2) of
                                 None \<Rightarrow> None
                               | Some (v, r3) \<Rightarrow>
                                   (case skip_ws r3 of
                                      [] \<Rightarrow> None
                                    | c' # r4 \<Rightarrow>
                                        if c' = CHR ''}'' then Some ([(k, v)], r4)
                                        else if c' = CHR '',''
                                        then map_option (apfst ((#) (k, v)))
                                               (parse_members n (skip_ws r4))
                                        else None)))))"

text \<open>A JSON text is one value between optional white space.\<close>

definition parse_json :: "string \<Rightarrow> json option" where
  "parse_json s =
     (case parse_value (length s) (skip_ws s) of
        None \<Rightarrow> None
      | Some (v, r) \<Rightarrow> if skip_ws r = [] then Some v else None)"

subsection \<open>Histories as JSON values\<close>

text \<open>
  The persisted shape: the value \<open>JSON.stringify\<close> walks for a history, with the properties
  in the order in which \<open>createNewChatSession\<close> and \<open>addMessageToCurrentChat\<close> create them
  (a spread keeps that order).
\<close>

definition message_json :: "ChatMessage \<Rightarrow> json" where
  "message_json m =
     JObject [(''id'', JString (mid m)), (''text'', JString (mtext m)),
              (''isUser'', JBool (isUser m)), (''timestamp'', JNumber (timestamp m))]"

definition session_json :: "ChatSession \<Rightarrow> json" where
  "session_json s =
     JObject [(''id'', JString (sid s)), (''title'', JString (title s)),
              (''messages'', JArray (map message_json (messages s))),
              (''createdAt'', JNumber (createdAt s)), (''updatedAt'', JNumber (updatedAt s))]"

definition history_json :: "ChatSession list \<Rightarrow> json" where
  "history_json h = JArray (map session_json h)"

text \<open>
  Reading a history off a parsed value. \<open>JSON.parse\<close> lets a later property of the same
  name replace an earlier one. A value of another shape is returned by the code as it is,
  typed as a history by the cast alone; no history of this model describes it, and the
  model has no result for it.
\<close>

definition property :: "(string \<times> json) list \<Rightarrow> string \<Rightarrow> json option" where
  "property kvs k = map_of (rev kvs) k"

definition json_message :: "json \<Rightarrow> ChatMessage option" where
  "json_message v =
     (case v of
        JObject kvs \<Rightarrow>
          (case (property kvs ''id'', property kvs ''text'', property kvs ''isUser'',
                 property kvs ''timestamp'') of
             (Some (JString i), Some (JString t), Some (JBool u), Some (JNumber n)) \<Rightarrow>
               Some \<lparr> mid = i, mtext = t, isUser = u, timestamp = n \<rparr>
           | _ \<Rightarrow> None)
      | _ \<Rightarrow> None)"

definition json_session :: "json \<Rightarrow> ChatSession option" where
  "json_session v =
     (case v of
        JObject kvs \<Rightarrow>
          (case (property kvs ''id'', property kvs ''title'', property kvs ''messages'',
                 property kvs ''createdAt'', property kvs ''updatedAt'') of
             (Some (JString i), Some (JString t), Some (JArray ms), Some (JNumber c),
              Some (JNumber u)) \<Rightarrow>
               (case those (map json_message ms) of
                  None \<Rightarrow> None
                | Some msgs \<Rightarrow>
                    Some \<lparr> sid = i, title = t, messages = msgs, createdAt = c, updatedAt = u \<rparr>)
           | _ \<Rightarrow> None)
      | _ \<Rightarrow> None)"

definition json_history :: "json \<Rightarrow> ChatSession list option" where
  "json_history v = (case v of JArray vs \<Rightarrow> those (map json_session vs) | _ \<Rightarrow> None)"

text \<open>\<open>JSON.stringify(history)\<close> and \<open>JSON.parse(text)\<close> at the type of histories.\<close>

definition JSON_stringify :: "ChatSession list \<Rightarrow> string" where
  "JSON_stringify h = stringify_value (history_json h)"

definition JSON_parse :: "string \<Rightarrow> ChatSession list option" where
  "JSON_parse s = (case parse_json s of None \<Rightarrow> None | Some v \<Rightarrow> json_history v)"

subsection \<open>Notions for the round trip\<close>

text \<open>
  The number that a string of digits denotes after a given prefix, and the property that a
  value is read back from its own text, whatever follows it and with any sufficient bound.
\<close>

definition digits_value :: "nat \<Rightarrow> string \<Rightarrow> nat" where
  "digits_value acc ds = foldl (\<lambda>a c. 10 * a + (of_char c - 48)) acc ds"

definition round_trips :: "json \<Rightarrow> bool" where
  "round_trips v =
     (\<forall>n rest. length (stringify_value v) \<le> n \<longrightarrow> ends_number rest \<longrightarrow>
        parse_value n (stringify_value v @ rest) = Some (v, rest))"

section \<open>Streaming request pipeline (components/ChatContainer.tsx)\<close>

subsection \<open>Values read from a parsed record\<close>

text \<open>
  \<open>JSON.parse\<close> is a platform function and a parameter of the pipeline. The pipeline reads
  three properties of the value it returns and only coerces them: to a boolean in the
  conditions \<open>if (data.error)\<close>, \<open>if (data.content)\<close>, \<open>if (data.done)\<close>, to a string in
  \<open>new Error(data.error)\<close> and in \<open>accumulatedContent += data.content\<close>. A property value
  is represented by the results of these two coercions. The coercion to a string raises a
  \<open>TypeError\<close> on an object whose own \<open>toString\<close> property is not callable (as in
  \<open>{"content": {"toString": 1}}\<close>); then \<open>str\<close> is \<open>None\<close>.
\<close>

record js_value =
  truthy :: bool
  str :: "string option"

definition js_undefined :: js_value where
  "js_undefined = \<lparr> truthy = False, str = Some ''undefined'' \<rparr>"

definition js_string :: "string \<Rightarrow> js_value" where
  "js_string s = \<lparr> truthy = (s \<noteq> []), str = Some s \<rparr>"

definition js_boolean :: "bool \<Rightarrow> js_value" where
  "js_boolean b = \<lparr> truthy = b, str = Some (if b then ''true'' else ''false'') \<rparr>"

record payload =
  data_error :: js_value
  data_content :: js_value
  data_done :: js_value

text \<open>
  \<open>JSON.parse(jsonStr)\<close> raises a \<open>SyntaxError\<close>, or returns \<open>null\<close> (reading a property of
  which raises a \<open>TypeError\<close>), or returns a value whose three properties can be read.
\<close>

datatype parsed = Raises | ReturnsNull | Returns payload

datatype exn = Error string | SyntaxError | TypeError | Rejection

subsection \<open>State of the chat container\<close>

text \<open>
  Modelled from the spec: \<open>showLoading\<close>, \<open>showError\<close> and \<open>dismissToast\<close> of
  \<open>utils/toast\<close> are imported by the container but are not among the source files. The
  specification describes them as the transient "in progress" notification, the
  user-visible error notification and the dismissal of the former; each call is recorded, in
  order, in the list \<open>toasts\<close> of the state. \<open>dismissToast\<close> is only ever given the id that
  \<open>showLoading\<close> returned.
\<close>

datatype notification = ShowLoading string | ShowError string | DismissToast

text \<open>The calls of \<open>console.warn\<close> and \<open>console.error\<close>, with the values they are given.\<close>

datatype console_entry = Warn string exn | ConsoleError exn

text \<open>
  The clock readings and the random suffix that one call of a manager operation draws:
  \<open>idNow\<close> and \<open>suffix\<close> in \<open>generateMessageId()\<close>, \<open>tsNow\<close> in \<open>timestamp: Date.now()\<close>,
  \<open>updNow\<close> in \<open>updatedAt: Date.now()\<close>. The environment of a send gives the readings of
  its \<open>k\<close>-th call of a manager operation.
\<close>

record readings =
  idNow :: int
  suffix :: string
  tsNow :: int
  updNow :: int

record app =
  chatHistory :: manager
  isSendingMessage :: bool
  toasts :: "notification list"
  console :: "console_entry list"
  calls :: nat

definition call_add :: "(nat \<Rightarrow> readings) \<Rightarrow> string \<Rightarrow> bool \<Rightarrow> app \<Rightarrow> app" where
  "call_add env txt isUsr a =
     (let r = env (calls a)
      in a \<lparr> chatHistory :=
                addMessageToCurrentChat (generateMessageId (idNow r) (suffix r)) (tsNow r)
                  (updNow r) txt isUsr (chatHistory a),
              calls := Suc (calls a) \<rparr>)"

definition call_update :: "(nat \<Rightarrow> readings) \<Rightarrow> string \<Rightarrow> app \<Rightarrow> app" where
  "call_update env newText a =
     (let r = env (calls a)
      in a \<lparr> chatHistory := updateLastAIMessage (tsNow r) (updNow r) newText (chatHistory a),
              calls := Suc (calls a) \<rparr>)"

subsection \<open>The response\<close>

text \<open>
  What successive \<open>reader.read()\<close> calls deliver: a chunk (given as the text the streaming
  decoder returns for it) and the rest, the end of the stream, or a rejection. \<open>fetch\<close>
  rejects or resolves to a response with a status and a body, whose reader may be missing
  (\<open>response.body?.getReader()\<close>). \<open>response.ok\<close> holds for the statuses 200 to 299.
\<close>

datatype reads = ReadDone | ReadValue string reads | ReadRejected

datatype response = FetchRejected | Response nat "reads option"

definition ok :: "nat \<Rightarrow> bool" where
  "ok status = (200 \<le> status \<and> status \<le> 299)"

subsection \<open>The read loop\<close>

text \<open>\<open>chunk.split('\n')\<close>: the pieces between line feeds, always at least one.\<close>

fun split_nl :: "string \<Rightarrow> string list" where
  "split_nl [] = [[]]"
| "split_nl (c # cs) =
     (if c = CHR 0x0A then [] # split_nl cs
      else (case split_nl cs of [] \<Rightarrow> [[c]] | l # ls \<Rightarrow> (c # l) # ls))"

text \<open>
  The body of the inner \<open>try\<close> for one line that starts with \<open>data: \<close>. It ends by raising
  (\<open>Inl\<close>) or normally, with the accumulator, the state and whether \<open>break\<close> was reached.
  Every raise precedes the only state change, so it leaves the state as it was.
\<close>

definition try_record ::
  "(string \<Rightarrow> parsed) \<Rightarrow> (nat \<Rightarrow> readings) \<Rightarrow> string \<Rightarrow> string \<Rightarrow> app
     \<Rightarrow> exn + (string \<times> app \<times> bool)" where
  "try_record parse env line accumulatedContent a =
     (let jsonStr = drop 6 line
      in case parse jsonStr of
           Raises \<Rightarrow> Inl SyntaxError
         | ReturnsNull \<Rightarrow> Inl TypeError
         | Returns d \<Rightarrow>
             if truthy (data_error d)
             then (case str (data_error d) of
                     None \<Rightarrow> Inl TypeError
                   | Some message \<Rightarrow> Inl (Error message))
             else if truthy (data_content d)
             then (case str (data_content d) of
                     None \<Rightarrow> Inl TypeError
                   | Some c \<Rightarrow>
                       Inr (accumulatedContent @ c,
                            call_update env (accumulatedContent @ c) a,
                            truthy (data_done d)))
             else Inr (accumulatedContent, a, truthy (data_done d)))"

text \<open>
  \<open>for (const line of lines)\<close>: the \<open>catch\<close> of the inner \<open>try\<close> warns on the console and the
  loop goes on with the next line; \<open>break\<close> leaves this loop only.
\<close>

fun process_lines ::
  "(string \<Rightarrow> parsed) \<Rightarrow> (nat \<Rightarrow> readings) \<Rightarrow> string list \<Rightarrow> string \<Rightarrow> app \<Rightarrow> string \<times> app" where
  "process_lines parse env [] acc a = (acc, a)"
| "process_lines parse env (line # lines) acc a =
     (if take 6 line = ''data: ''
      then (case try_record parse env line acc a of
              Inl parseError \<Rightarrow>
                process_lines parse env lines acc
                  (a \<lparr> console := console a @ [Warn line parseError] \<rparr>)
            | Inr (acc', a', break) \<Rightarrow>
                if break then (acc', a') else process_lines parse env lines acc' a')
      else process_lines parse env lines acc a)"

text \<open>
  \<open>while (true)\<close>: ends at \<open>done\<close>, or by the rejection of a read, which leaves the outer
  \<open>try\<close>. The result is the exception raised, if any, the accumulator and the state.
\<close>

fun read_loop ::
  "(string \<Rightarrow> parsed) \<Rightarrow> (nat \<Rightarrow> readings) \<Rightarrow> reads \<Rightarrow> string \<Rightarrow> app
     \<Rightarrow> exn option \<times> string \<times> app" where
  "read_loop parse env ReadDone acc a = (None, acc, a)"
| "read_loop parse env ReadRejected acc a = (Some Rejection, acc, a)"
| "read_loop parse env (ReadValue chunk rest) acc a =
     (case process_lines parse env (split_nl chunk) acc a of
        (acc', a') \<Rightarrow> read_loop parse env rest acc' a')"

text \<open>The value of \<open>accumulatedContent\<close> when the read loop is left.\<close>

definition accumulated ::
  "(string \<Rightarrow> parsed) \<Rightarrow> (nat \<Rightarrow> readings) \<Rightarrow> reads \<Rightarrow> app \<Rightarrow> string" where
  "accumulated parse env rs a = fst (snd (read_loop parse env rs [] a))"

subsection \<open>handleSendMessage\<close>

definition apology :: string where
  "apology = ''Sorry, I encountered an error. Please try again.''"

definition failure_notice :: string where
  "failure_notice = ''Failed to get a response from Hikari. Please try again.''"

text \<open>
  The body of the outer \<open>try\<close>: the exception that leaves it, if any, and the state then.
\<close>

definition try_send ::
  "(string \<Rightarrow> parsed) \<Rightarrow> (nat \<Rightarrow> readings) \<Rightarrow> response \<Rightarrow> app \<Rightarrow> exn option \<times> app" where
  "try_send parse env resp a0 =
     (let a = call_add env [] False a0
      in case resp of
           FetchRejected \<Rightarrow> (Some Rejection, a)
         | Response status body \<Rightarrow>
             if \<not> ok status
             then (Some (Error (''HTTP error! status: '' @ show_nat status)), a)
             else (case body of
                     None \<Rightarrow> (Some (Error ''Response body is not readable''), a)
                   | Some reader \<Rightarrow>
                       (case read_loop parse env reader [] a of
                          (Some e, accumulatedContent, a') \<Rightarrow> (Some e, a')
                        | (None, accumulatedContent, a') \<Rightarrow>
                            if accumulatedContent = []
                            then (Some (Error ''No response received from server''), a')
                            else (None, a'))))"

text \<open>
  The whole handler: the user message, the flag and the loading toast, the outer \<open>try\<close>, its
  \<open>catch\<close> (console, error toast, apology written over the last assistant message) and the
  \<open>finally\<close> block.
\<close>

definition handleSendMessage ::
  "(string \<Rightarrow> parsed) \<Rightarrow> (nat \<Rightarrow> readings) \<Rightarrow> string \<Rightarrow> response \<Rightarrow> app \<Rightarrow> app" where
  "handleSendMessage parse env txt resp a0 =
     (let a1 = call_add env txt True a0;
          a2 = a1 \<lparr> isSendingMessage := True \<rparr>;
          a3 = a2 \<lparr> toasts := toasts a2 @ [ShowLoading ''Hikari is thinking...''] \<rparr>;
          (thrown, a4) = try_send parse env resp a3;
          a5 = (case thrown of
                  None \<Rightarrow> a4
                | Some error \<Rightarrow>
                    call_update env apology
                      (a4 \<lparr> console := console a4 @ [ConsoleError error],
                            toasts := toasts a4 @ [ShowError failure_notice] \<rparr>));
          a6 = a5 \<lparr> toasts := toasts a5 @ [DismissToast] \<rparr>
      in a6 \<lparr> isSendingMessage := False \<rparr>)"

subsection \<open>States of a send\<close>

text \<open>
  There is a current session: the current id passes the guard of the manager operations
  and some session has it.
\<close>

definition has_current :: "manager \<Rightarrow> bool" where
  "has_current st =
     (case currentChatSessionId st of None \<Rightarrow> False | Some x \<Rightarrow> x \<noteq> [] \<and> x \<in> session_ids st)"

text \<open>The messages the container renders: \<open>currentChatMessages\<close> of the context.\<close>

definition shown :: "app \<Rightarrow> ChatMessage list" where
  "shown a = currentChatMessages (chatHistory a)"

text \<open>
  The invariant of the read loop: a current session whose last message is an assistant
  message, with the earlier messages, the toasts and the flag fixed.
\<close>

definition answering :: "app \<Rightarrow> bool" where
  "answering a = (shown a \<noteq> [] \<and> \<not> isUser (last (shown a)))"

definition streaming :: "ChatMessage list \<Rightarrow> notification list \<Rightarrow> bool \<Rightarrow> app \<Rightarrow> bool" where
  "streaming earlier ts flag a =
     (has_current (chatHistory a) \<and> answering a \<and> butlast (shown a) = earlier
      \<and> toasts a = ts \<and> isSendingMessage a = flag)"

subsection \<open>Records of the wire protocol\<close>

text \<open>
  What reading \<open>error\<close>, \<open>content\<close> and \<open>done\<close> gives on the objects \<open>{"content": s}\<close>,
  \<open>{"error": s}\<close> and \<open>{"done": true}\<close>: the named property has its value, the others are
  \<open>undefined\<close>.
\<close>

definition content_record :: "string \<Rightarrow> payload" where
  "content_record s =
     \<lparr> data_error = js_undefined, data_content = js_string s, data_done = js_undefined \<rparr>"

definition error_record :: "string \<Rightarrow> payload" where
  "error_record s =
     \<lparr> data_error = js_string s, data_content = js_undefined, data_done = js_undefined \<rparr>"

definition done_record :: payload where
  "done_record =
     \<lparr> data_error = js_undefined, data_content = js_undefined, data_done = js_boolean True \<rparr>"

subsection \<open>The records of a stream\<close>

text \<open>
  The lines of all chunks that start with \<open>data: \<close>, in the order of the stream, and the
  lines among them whose record has no truthy \<open>content\<close> (or cannot be parsed).
\<close>

fun chunks_of :: "reads \<Rightarrow> string list" where
  "chunks_of ReadDone = []"
| "chunks_of ReadRejected = []"
| "chunks_of (ReadValue chunk rest) = chunk # chunks_of rest"

definition records_of :: "reads \<Rightarrow> string list" where
  "records_of rs =
     concat (map (\<lambda>chunk. filter (\<lambda>line. take 6 line = ''data: '') (split_nl chunk))
               (chunks_of rs))"

definition no_content :: "(string \<Rightarrow> parsed) \<Rightarrow> string \<Rightarrow> bool" where
  "no_content parse line =
     (case parse (drop 6 line) of Returns d \<Rightarrow> \<not> truthy (data_content d) | _ \<Rightarrow> True)"

section \<open>Example inputs\<close>

text \<open>
  The value of \<open>JSON.parse\<close> on the record texts of the examples below. The other texts
  that the examples pass to it (\<open>{not valid json}\<close> and the first part \<open>{"con\<close> of a
  record) are not JSON; the function is not used on anything else.
\<close>

definition parse_example :: "string \<Rightarrow> parsed" where
  \<open>parse_example s =
     (if s = ''{"content":"Hel"}'' then Returns (content_record ''Hel'')
      else if s = ''{"content":"lo"}'' then Returns (content_record ''lo'')
      else if s = ''{"content":"ok"}'' then Returns (content_record ''ok'')
      else if s = ''{"content":"Hi"}'' then Returns (content_record ''Hi'')
      else if s = ''{"done":true}'' then Returns done_record
      else if s = ''{"error":"boom"}'' then Returns (error_record ''boom'')
      else Raises)\<close>

text \<open>A clock that advances by one millisecond per call, and a fixed random suffix.\<close>

definition env_example :: "nat \<Rightarrow> readings" where
  "env_example k = \<lparr> idNow = int k, suffix = ''k3x9q2a'', tsNow = int k, updNow = int k \<rparr>"

text \<open>The container over a manager that was mounted on an empty store at time 0.\<close>

definition app_example :: app where
  "app_example =
     \<lparr> chatHistory = initialize [] 0 initial_manager, isSendingMessage = False,
       toasts = [], console = [], calls = 0 \<rparr>"

text \<open>One stored history, and a window whose store is empty and writable.\<close>

definition history_example :: "ChatSession list" where
  "history_example =
     [\<lparr> sid = ''chat-0'', title = ''hi'',
        messages = [\<lparr> mid = ''msg-1-k3x9q2a'', mtext = ''hi'', isUser = True, timestamp = 1 \<rparr>],
        createdAt = 0, updatedAt = 1 \<rparr>]"

definition window_example :: window where
  "window_example = Window \<lparr> items = Map.empty, blocked = False, full = False \<rparr>"

section \<open>Properties of the chat history manager\<close>

subsection \<open>What the two mapped functions keep\<close>

lemma sid_add_to_session [simp]: "sid (add_to_session cur m upd txt u s) = sid s"
  by (simp add: add_to_session_def)

lemma sid_update_in_session [simp]: "sid (update_in_session cur ts upd t s) = sid s"
  by (simp add: update_in_session_def Let_def)

lemma session_ids_add [simp]:
  "session_ids (addMessageToCurrentChat newId ts upd txt u st) = session_ids st"
  by (simp add: addMessageToCurrentChat_def session_ids_def Let_def image_image)

lemma session_ids_update [simp]:
  "session_ids (updateLastAIMessage ts upd t st) = session_ids st"
  by (simp add: updateLastAIMessage_def session_ids_def image_image)

lemma current_add [simp]:
  "currentChatSessionId (addMessageToCurrentChat newId ts upd txt u st) = currentChatSessionId st"
  by (simp add: addMessageToCurrentChat_def Let_def)

lemma current_update [simp]:
  "currentChatSessionId (updateLastAIMessage ts upd t st) = currentChatSessionId st"
  by (simp add: updateLastAIMessage_def)

lemma add_to_session_other: "Some (sid s) \<noteq> cur \<Longrightarrow> add_to_session cur m upd txt u s = s"
  by (simp add: add_to_session_def)

lemma update_in_session_other: "Some (sid s) \<noteq> cur \<Longrightarrow> update_in_session cur ts upd t s = s"
  by (simp add: update_in_session_def)

lemma update_in_session_noop:
  "messages s = [] \<or> isUser (last (messages s)) \<Longrightarrow> update_in_session cur ts upd t s = s"
  by (auto simp: update_in_session_def Let_def last_conv_nth nat_diff_distrib')

lemma length_add [simp]:
  "length (chatSessions (addMessageToCurrentChat newId ts upd txt u st)) = length (chatSessions st)"
  by (simp add: addMessageToCurrentChat_def Let_def)

lemma nth_add:
  "i < length (chatSessions st) \<Longrightarrow> \<not> falsy_id (currentChatSessionId st) \<Longrightarrow>
   chatSessions (addMessageToCurrentChat newId ts upd txt u st) ! i =
   add_to_session (currentChatSessionId st)
     \<lparr> mid = newId, mtext = txt, isUser = u, timestamp = ts \<rparr> upd txt u (chatSessions st ! i)"
  by (simp add: addMessageToCurrentChat_def Let_def)

lemma title_add_nonempty:
  "messages s \<noteq> [] \<Longrightarrow> title (add_to_session cur m upd txt u s) = title s"
  by (simp add: add_to_session_def)

lemma messages_add_nonempty:
  "messages s \<noteq> [] \<Longrightarrow> messages (add_to_session cur m upd txt u s) \<noteq> []"
  by (simp add: add_to_session_def)

lemma show_nat_0: "show_nat 0 = ''0''"
  by code_simp

lemma show_nat_5: "show_nat 5 = ''5''"
  by code_simp

subsection \<open>A current id that no session has\<close>

text \<open>
  Claim C10. When the current session id is set to an id that no session in the sequence
  has, \<open>addMessageToCurrentChat\<close> and \<open>updateLastAIMessage\<close> return the state they were
  given, for every message id, clock reading, text and flag: the message is dropped, no
  session is created and nothing is raised (both operations are total functions on states).
\<close>

theorem dangling_id_drops_message:
  assumes "currentChatSessionId st = Some x" and "x \<notin> session_ids st"
  shows "addMessageToCurrentChat newId ts upd txt isUsr st = st
       \<and> updateLastAIMessage ts' upd' newText st = st"
proof -
  have other: "\<forall>s \<in> set (chatSessions st). Some (sid s) \<noteq> currentChatSessionId st"
    using assms by (auto simp: session_ids_def)
  have "map (add_to_session (currentChatSessionId st) m upd txt isUsr) (chatSessions st)
          = chatSessions st" for m
    using other by (simp add: map_idI add_to_session_other)
  moreover have "map (update_in_session (currentChatSessionId st) ts' upd' newText)
          (chatSessions st) = chatSessions st"
    using other by (simp add: map_idI update_in_session_other)
  ultimately show ?thesis
    by (simp add: addMessageToCurrentChat_def updateLastAIMessage_def Let_def)
qed

text \<open>A fresh session \<open>chat-0\<close> while the current id is \<open>chat-9\<close>.\<close>

theorem dangling_id_drops_message_witness:
  "addMessageToCurrentChat ''msg-1-abc'' 1 1 ''hello'' True
     \<lparr> chatSessions = [\<lparr> sid = ''chat-0'', title = ''New Chat'', messages = [],
                          createdAt = 0, updatedAt = 0 \<rparr>],
       currentChatSessionId = Some ''chat-9'', isLoading = False \<rparr>
   = \<lparr> chatSessions = [\<lparr> sid = ''chat-0'', title = ''New Chat'', messages = [],
                          createdAt = 0, updatedAt = 0 \<rparr>],
       currentChatSessionId = Some ''chat-9'', isLoading = False \<rparr>
   \<and> updateLastAIMessage 2 2 ''Hel''
     \<lparr> chatSessions = [\<lparr> sid = ''chat-0'', title = ''New Chat'', messages = [],
                          createdAt = 0, updatedAt = 0 \<rparr>],
       currentChatSessionId = Some ''chat-9'', isLoading = False \<rparr>
   = \<lparr> chatSessions = [\<lparr> sid = ''chat-0'', title = ''New Chat'', messages = [],
                          createdAt = 0, updatedAt = 0 \<rparr>],
       currentChatSessionId = Some ''chat-9'', isLoading = False \<rparr>"
  using dangling_id_drops_message
    [of "\<lparr> chatSessions = [\<lparr> sid = ''chat-0'', title = ''New Chat'', messages = [],
                          createdAt = 0, updatedAt = 0 \<rparr>],
          currentChatSessionId = Some ''chat-9'', isLoading = False \<rparr>"
        "''chat-9''" "''msg-1-abc''" 1 1 "''hello''" True 2 2 "''Hel''"]
  by (simp add: session_ids_def)

subsection \<open>Updating when there is no assistant message to update\<close>

text \<open>
  Claim C4. When every session that carries the current id has no message or has a user
  message last, \<open>updateLastAIMessage\<close> returns the state unchanged (all sessions, all
  their fields, the current id, the loading flag), for every new text and clock reading.
  With one session per id this is the current session of the claim.
\<close>

theorem updateLastAIMessage_noop:
  assumes "\<forall>s \<in> set (chatSessions st). Some (sid s) = currentChatSessionId st \<longrightarrow>
             messages s = [] \<or> isUser (last (messages s))"
  shows "updateLastAIMessage ts upd newText st = st"
proof -
  have "update_in_session (currentChatSessionId st) ts upd newText s = s"
    if "s \<in> set (chatSessions st)" for s
  proof (cases "Some (sid s) = currentChatSessionId st")
    case True
    with assms that show ?thesis by (simp add: update_in_session_noop)
  next
    case False
    then show ?thesis by (simp add: update_in_session_other)
  qed
  then have "map (update_in_session (currentChatSessionId st) ts upd newText) (chatSessions st)
          = chatSessions st"
    by (simp add: map_idI)
  then show ?thesis by (simp add: updateLastAIMessage_def)
qed

text \<open>The current session ends with a user message; the other session is empty.\<close>

theorem updateLastAIMessage_noop_witness:
  "updateLastAIMessage 7 8 ''partial''
     \<lparr> chatSessions =
         [\<lparr> sid = ''chat-1'', title = ''hi'',
            messages = [\<lparr> mid = ''msg-1-abc'', mtext = ''hi'', isUser = True, timestamp = 1 \<rparr>],
            createdAt = 1, updatedAt = 1 \<rparr>,
          \<lparr> sid = ''chat-0'', title = ''New Chat'', messages = [],
            createdAt = 0, updatedAt = 0 \<rparr>],
       currentChatSessionId = Some ''chat-1'', isLoading = False \<rparr>
   = \<lparr> chatSessions =
         [\<lparr> sid = ''chat-1'', title = ''hi'',
            messages = [\<lparr> mid = ''msg-1-abc'', mtext = ''hi'', isUser = True, timestamp = 1 \<rparr>],
            createdAt = 1, updatedAt = 1 \<rparr>,
          \<lparr> sid = ''chat-0'', title = ''New Chat'', messages = [],
            createdAt = 0, updatedAt = 0 \<rparr>],
       currentChatSessionId = Some ''chat-1'', isLoading = False \<rparr>"
  using updateLastAIMessage_noop
    [of "\<lparr> chatSessions =
         [\<lparr> sid = ''chat-1'', title = ''hi'',
            messages = [\<lparr> mid = ''msg-1-abc'', mtext = ''hi'', isUser = True, timestamp = 1 \<rparr>],
            createdAt = 1, updatedAt = 1 \<rparr>,
          \<lparr> sid = ''chat-0'', title = ''New Chat'', messages = [],
            createdAt = 0, updatedAt = 0 \<rparr>],
       currentChatSessionId = Some ''chat-1'', isLoading = False \<rparr>" 7 8 "''partial''"]
  by simp

subsection \<open>The title of a session\<close>

lemma add_all_keeps_title:
  "i < length (chatSessions st) \<Longrightarrow> messages (chatSessions st ! i) \<noteq> [] \<Longrightarrow>
   title (chatSessions (add_all cs st) ! i) = title (chatSessions st ! i)"
proof (induction cs arbitrary: st)
  case Nil
  then show ?case by simp
next
  case (Cons c cs)
  obtain newId ts upd t u where c: "c = (newId, ts, upd, t, u)"
    by (cases c) auto
  let ?st = "addMessageToCurrentChat newId ts upd t u st"
  show ?case
  proof (cases "falsy_id (currentChatSessionId st)")
    case True
    then have "?st = st" by (simp add: addMessageToCurrentChat_def)
    with Cons c show ?thesis by simp
  next
    case False
    with Cons.prems have step:
      "title (chatSessions ?st ! i) = title (chatSessions st ! i)"
      "messages (chatSessions ?st ! i) \<noteq> []"
      by (simp_all add: nth_add title_add_nonempty messages_add_nonempty)
    from Cons.prems have "i < length (chatSessions ?st)" by simp
    from Cons.IH [OF this step(2)] step(1) c show ?thesis by simp
  qed
qed

text \<open>
  Claim C2, as amended. Take a session without messages that carries the current id and any
  non-empty sequence of \<open>addMessageToCurrentChat\<close> calls. If the first call is a user
  message, the title after the whole sequence is the first 30 characters of its text, with
  \<open>...\<close> appended iff the text is longer than 30; if the first call is an assistant
  message, the title after the whole sequence is the one the session had. In both cases no
  later call changes the title.
\<close>

theorem title_set_by_first_message_only:
  assumes "currentChatSessionId st = Some x" and "x \<noteq> []"
    and "i < length (chatSessions st)" and "sid (chatSessions st ! i) = x"
    and "messages (chatSessions st ! i) = []"
  shows "title (chatSessions (add_all ((newId, ts, upd, txt, isUsr) # cs) st) ! i) =
           (if isUsr then title_of txt else title (chatSessions st ! i))"
proof -
  let ?st = "addMessageToCurrentChat newId ts upd txt isUsr st"
  from assms have nf: "\<not> falsy_id (currentChatSessionId st)" by (simp add: falsy_id_def)
  have first: "title (chatSessions ?st ! i) =
      (if isUsr then title_of txt else title (chatSessions st ! i))"
    and ne: "messages (chatSessions ?st ! i) \<noteq> []"
    using assms nf by (simp_all add: nth_add add_to_session_def)
  from assms have "i < length (chatSessions ?st)" by simp
  from add_all_keeps_title [OF this ne] first show ?thesis by simp
qed

text \<open>A run of three calls on the fresh session of an empty store.\<close>

theorem title_set_by_first_message_only_witness:
  "title (chatSessions
            (add_all [(''m1'', 1, 1, ''write a hello world program in the C language'', True),
                      (''m2'', 2, 2, '''', False), (''m3'', 3, 3, ''thanks'', True)]
               (initialize [] 0 initial_manager)) ! 0) = ''write a hello world program in...''"
  using title_set_by_first_message_only
    [of "initialize [] 0 initial_manager" "''chat-0''" 0 "''m1''" 1 1
        "''write a hello world program in the C language''" True
        "[(''m2'', 2, 2, '''', False), (''m3'', 3, 3, ''thanks'', True)]"]
  by (simp add: initialize_def initial_manager_def createNewChatSession_def title_of_def Let_def
      show_int_def show_nat_0)

text \<open>
  Claim C2 as stated fails: after an assistant message on the empty session, the first user
  message \<open>hello\<close> leaves the title \<open>New Chat\<close>, which is not the title the rule gives
  for \<open>hello\<close>.
\<close>

theorem title_not_set_after_assistant_message:
  "title (chatSessions
            (add_all [(''m1'', 1, 1, '''', False), (''m2'', 2, 2, ''hello'', True)]
               (initialize [] 0 initial_manager)) ! 0) = ''New Chat''
   \<and> title_of ''hello'' = ''hello''"
  by (simp add: initialize_def initial_manager_def createNewChatSession_def
      addMessageToCurrentChat_def add_to_session_def falsy_id_def title_of_def Let_def
      show_int_def show_nat_0)

subsection \<open>The current session exists\<close>

lemma current_exists_step:
  assumes "current_exists st"
    and "case x of SelectChatSession sessionId \<Rightarrow> sessionId \<in> session_ids st | _ \<Rightarrow> True"
  shows "current_exists (apply_operation x st)"
proof (cases x)
  case (StartNewChat now)
  then show ?thesis
    by (simp add: current_exists_def startNewChat_def session_ids_def Let_def)
next
  case (SelectChatSession sessionId)
  with assms(2) show ?thesis
    by (simp add: current_exists_def selectChatSession_def session_ids_def)
next
  case (AddMessage newId ts upd t isUsr)
  with assms(1) show ?thesis by (simp add: current_exists_def split: option.splits)
next
  case (UpdateLastAIMessage ts upd newText)
  with assms(1) show ?thesis by (simp add: current_exists_def split: option.splits)
qed

lemma current_exists_run:
  "current_exists st \<Longrightarrow> selects_listed xs st \<Longrightarrow> current_exists (run xs st)"
proof (induction xs arbitrary: st)
  case Nil
  then show ?case by simp
next
  case (Cons x xs)
  from Cons.prems have "current_exists (apply_operation x st)"
    by (intro current_exists_step) simp_all
  with Cons show ?case by simp
qed

lemma current_exists_initialize: "current_exists (initialize h now st)"
  by (cases h) (simp_all add: initialize_def current_exists_def session_ids_def Let_def)

text \<open>
  Claim C3, as amended. In every state reached from \<open>initialize\<close> by a sequence of
  \<open>startNewChat\<close>, \<open>selectChatSession\<close>, \<open>addMessageToCurrentChat\<close> and
  \<open>updateLastAIMessage\<close> in which each \<open>selectChatSession\<close> is given the id of a session
  present when it is called, the current id, if set, is the id of some session.
\<close>

theorem current_session_exists:
  assumes "selects_listed xs (initialize h now initial_manager)"
  shows "current_exists (run xs (initialize h now initial_manager))"
  using current_exists_initialize assms by (rule current_exists_run)

text \<open>A run of all four operations that selects the first session again.\<close>

theorem current_session_exists_witness:
  "selects_listed
     [AddMessage ''msg-1-abc'' 1 1 ''hi'' True, StartNewChat 5, SelectChatSession ''chat-0'',
      UpdateLastAIMessage 6 6 ''x'']
     (initialize [] 0 initial_manager)
   \<and> current_exists
       (run [AddMessage ''msg-1-abc'' 1 1 ''hi'' True, StartNewChat 5,
             SelectChatSession ''chat-0'', UpdateLastAIMessage 6 6 ''x'']
          (initialize [] 0 initial_manager))"
proof -
  have h: "selects_listed
     [AddMessage ''msg-1-abc'' 1 1 ''hi'' True, StartNewChat 5, SelectChatSession ''chat-0'',
      UpdateLastAIMessage 6 6 ''x'']
     (initialize [] 0 initial_manager)"
    by (simp add: initialize_def initial_manager_def createNewChatSession_def startNewChat_def
        addMessageToCurrentChat_def add_to_session_def falsy_id_def
        session_ids_def Let_def show_int_def show_nat_0 show_nat_5)
  from h current_session_exists [OF h] show ?thesis by simp
qed

text \<open>
  Claim C3 as stated fails: \<open>selectChatSession\<close> stores the id it is given without looking
  it up, so after selecting an unknown id the current id is set and no session has it.
\<close>

theorem select_unknown_id_dangles:
  "currentChatSessionId (run [SelectChatSession ''nope''] (initialize [] 0 initial_manager))
     = Some ''nope''
   \<and> ''nope'' \<notin> session_ids (run [SelectChatSession ''nope''] (initialize [] 0 initial_manager))"
  by (simp add: initialize_def initial_manager_def createNewChatSession_def selectChatSession_def
      session_ids_def Let_def show_int_def show_nat_0)

section \<open>Properties of the persistent store adapter\<close>

subsection \<open>Numerals\<close>

lemma of_char_digit: "d < 10 \<Longrightarrow> (of_char (char_of (48 + d :: nat)) :: nat) = 48 + d"
  by simp

lemma is_digit_char_of: "d < 10 \<Longrightarrow> is_digit (char_of (48 + d :: nat))"
  by (simp add: is_digit_def)

lemma show_nat_digits: "\<forall>c \<in> set (show_nat n). is_digit c"
proof (induction n rule: show_nat.induct)
  case (1 n)
  show ?case
  proof (cases "n < 10")
    case True
    then show ?thesis by (simp add: show_nat.simps [of n] is_digit_char_of)
  next
    case False
    with 1 show ?thesis by (simp add: show_nat.simps [of n] is_digit_char_of)
  qed
qed

lemma digits_value_show_nat: "digits_value 0 (show_nat n) = n"
proof (induction n rule: show_nat.induct)
  case (1 n)
  show ?case
  proof (cases "n < 10")
    case True
    then show ?thesis by (simp add: show_nat.simps [of n] digits_value_def)
  next
    case False
    with 1 have "digits_value 0 (show_nat (n div 10)) = n div 10" by simp
    with False show ?thesis
      by (simp add: show_nat.simps [of n] digits_value_def)
  qed
qed

lemma read_digits_append:
  "\<forall>c \<in> set ds. is_digit c \<Longrightarrow> ends_number rest \<Longrightarrow>
   read_digits acc (ds @ rest) = (digits_value acc ds, rest)"
proof (induction ds arbitrary: acc)
  case Nil
  then show ?case by (cases rest) (simp_all add: digits_value_def ends_number_def)
next
  case (Cons d ds)
  then show ?case by (simp add: digits_value_def)
qed

lemma show_nat_nonempty: "show_nat n \<noteq> []"
  by (subst show_nat.simps) simp

lemma hd_show_nat_positive: "0 < n \<Longrightarrow> hd (show_nat n) \<noteq> CHR ''0''"
proof (induction n rule: show_nat.induct)
  case (1 n)
  show ?case
  proof (cases "n < 10")
    case True
    have "char_of (48 + n) \<noteq> CHR ''0''"
    proof
      assume "char_of (48 + n) = CHR ''0''"
      then have "(of_char (char_of (48 + n)) :: nat) = of_char CHR ''0''" by simp
      with True 1(2) show False by simp
    qed
    with True show ?thesis
      by (simp add: show_nat.simps [of n])
  next
    case False
    then have "0 < n div 10" by simp
    with 1 False have "hd (show_nat (n div 10)) \<noteq> CHR ''0''" by simp
    with False show ?thesis
      by (simp add: show_nat.simps [of n] show_nat_nonempty)
  qed
qed

lemma is_digit_not_minus: "is_digit c \<Longrightarrow> c \<noteq> CHR ''-''"
  by (auto simp: is_digit_def)

lemma parse_unsigned_show_nat:
  assumes "ends_number rest"
  shows "parse_unsigned (show_nat n @ rest) = Some (n, rest)"
proof (cases "n = 0")
  case True
  have "show_nat 0 = ''0''" by (rule show_nat_0)
  with True assms show ?thesis by (simp add: parse_unsigned_def is_digit_def)
next
  case False
  obtain d ds where ds: "show_nat n = d # ds"
    using show_nat_nonempty [of n] by (cases "show_nat n") auto
  from False hd_show_nat_positive [of n] ds have d0: "d \<noteq> CHR ''0''" by simp
  from show_nat_digits [of n] ds have dd: "is_digit d" by simp
  from read_digits_append [where ds = "show_nat n" and acc = 0, OF show_nat_digits assms]
  have "read_digits 0 (show_nat n @ rest) = (n, rest)"
    by (simp add: digits_value_show_nat)
  with ds d0 dd assms show ?thesis by (simp add: parse_unsigned_def)
qed

lemma parse_number_show_int:
  assumes "ends_number rest"
  shows "parse_number (show_int i @ rest) = Some (i, rest)"
proof (cases "i < 0")
  case True
  with parse_unsigned_show_nat [OF assms, of "nat (- i)"] show ?thesis
    by (simp add: parse_number_def show_int_def)
next
  case False
  obtain d ds where ds: "show_nat (nat i) = d # ds"
    using show_nat_nonempty [of "nat i"] by (cases "show_nat (nat i)") auto
  from show_nat_digits [of "nat i"] ds have "d \<noteq> CHR ''-''"
    by (simp add: is_digit_not_minus)
  with False ds parse_unsigned_show_nat [OF assms, of "nat i"] show ?thesis
    by (simp add: parse_number_def show_int_def)
qed

subsection \<open>Strings\<close>

lemma hex_value_hex_digit: "d < 16 \<Longrightarrow> hex_value (hex_digit d) = Some d"
  by (simp add: hex_value_def hex_digit_def Let_def)

lemma unicode_escape_control:
  assumes "(of_char c :: nat) < 32"
  shows "unicode_escape [CHR ''0'', CHR ''0'', hex_digit (of_char c div 16),
                         hex_digit (of_char c mod 16)] = Some c"
proof -
  have "hex_value CHR ''0'' = Some 0" by (simp add: hex_value_def)
  moreover from assms have "hex_value (hex_digit (of_char c div 16)) = Some (of_char c div 16)"
    by (intro hex_value_hex_digit) simp
  moreover have "hex_value (hex_digit (of_char c mod 16)) = Some (of_char c mod 16)"
    by (intro hex_value_hex_digit) simp
  moreover from assms have "(of_char c :: nat) < 256" by simp
  ultimately show ?thesis by (simp add: unicode_escape_def Let_def)
qed

lemma parse_chars_escape:
  assumes "parse_chars (cs @ rest) = Some (s, rest')"
  shows "parse_chars (escape_char c @ cs @ rest) = Some (c # s, rest')"
proof -
  consider (special) "c \<in> {CHR 0x22, CHR 0x5C, CHR 0x08, CHR 0x09, CHR 0x0A, CHR 0x0C, CHR 0x0D}"
    | (control) "c \<notin> {CHR 0x22, CHR 0x5C, CHR 0x08, CHR 0x09, CHR 0x0A, CHR 0x0C, CHR 0x0D}"
        "(of_char c :: nat) < 32"
    | (plain) "c \<notin> {CHR 0x22, CHR 0x5C, CHR 0x08, CHR 0x09, CHR 0x0A, CHR 0x0C, CHR 0x0D}"
        "\<not> (of_char c :: nat) < 32"
    by blast
  then show ?thesis
  proof cases
    case special
    with assms show ?thesis
      by (auto simp: escape_char_def unescape_def)
  next
    case control
    with assms unicode_escape_control [OF control(2)] show ?thesis
      by (simp add: escape_char_def)
  next
    case plain
    with assms show ?thesis by (simp add: escape_char_def)
  qed
qed

lemma parse_chars_quote:
  "parse_chars (concat (map escape_char s) @ CHR 0x22 # rest) = Some (s, rest)"
proof (induction s)
  case Nil
  show ?case by simp
next
  case (Cons c s)
  from parse_chars_escape [of "concat (map escape_char s) @ [CHR 0x22]" rest s rest c] Cons
  show ?case by simp
qed

subsection \<open>Values\<close>

lemma show_int_start: "\<exists>c cs. show_int i = c # cs \<and> (c = CHR ''-'' \<or> is_digit c)"
proof (cases "i < 0")
  case True
  then show ?thesis by (simp add: show_int_def)
next
  case False
  obtain d ds where "show_nat (nat i) = d # ds"
    using show_nat_nonempty [of "nat i"] by (cases "show_nat (nat i)") auto
  with False show_nat_digits [of "nat i"] show ?thesis by (simp add: show_int_def)
qed

lemma stringify_start:
  "\<exists>c cs. stringify_value v = c # cs \<and> \<not> is_ws c \<and> c \<noteq> CHR '']'' \<and> c \<noteq> CHR ''}''"
proof (cases v)
  case (JNumber i)
  from show_int_start [of i] obtain c cs where "show_int i = c # cs" "c = CHR ''-'' \<or> is_digit c"
    by blast
  with JNumber show ?thesis by (auto simp: is_ws_def is_digit_def)
qed (simp_all add: is_ws_def quote_def)

lemma skip_ws_stringify [simp]: "skip_ws (stringify_value v @ rest) = stringify_value v @ rest"
  using stringify_start [of v] by auto

lemma stringify_nonempty: "1 \<le> length (stringify_value v)"
  using stringify_start [of v] by auto

lemma ends_number_delimiters [simp]:
  "ends_number (CHR '','' # cs)" "ends_number (CHR '']'' # cs)" "ends_number (CHR ''}'' # cs)"
  "ends_number []"
  by (simp_all add: ends_number_def is_digit_def)

lemma separate_Cons:
  "separate (x # xs) = x @ (if xs = [] then [] else CHR '','' # separate xs)"
  by (cases xs) simp_all

lemma skip_ws_separate [simp]:
  "skip_ws (separate (stringify_value v # ss) @ rest) = separate (stringify_value v # ss) @ rest"
  by (simp add: separate_Cons del: separate.simps)

lemma round_trips_D:
  "round_trips v \<Longrightarrow> length (stringify_value v) \<le> n \<Longrightarrow> ends_number rest \<Longrightarrow>
   parse_value n (stringify_value v @ rest) = Some (v, rest)"
  by (simp add: round_trips_def)

lemma parse_elements_separate:
  assumes "\<forall>v \<in> set vs. round_trips v" and "vs \<noteq> []"
    and "length (separate (map stringify_value vs)) < n"
  shows "parse_elements n (separate (map stringify_value vs) @ CHR '']'' # rest) = Some (vs, rest)"
  using assms
proof (induction vs arbitrary: n)
  case Nil
  then show ?case by simp
next
  case (Cons x xs)
  from Cons.prems(3) obtain k where n: "n = Suc k" by (cases n) auto
  show ?case
  proof (cases xs)
    case Nil
    from Cons.prems n Nil have "length (stringify_value x) \<le> k" by simp
    with Cons.prems(1) have
      "parse_value k (stringify_value x @ CHR '']'' # rest) = Some (x, CHR '']'' # rest)"
      by (intro round_trips_D) simp_all
    with n Nil show ?thesis by (simp add: is_ws_def)
  next
    case (Cons y ys)
    let ?tail = "separate (map stringify_value xs) @ CHR '']'' # rest"
    from Cons.prems n Cons have "length (stringify_value x) \<le> k" by simp
    with Cons.prems(1) have
      "parse_value k (stringify_value x @ CHR '','' # ?tail) = Some (x, CHR '','' # ?tail)"
      by (intro round_trips_D) simp_all
    moreover from Cons have "skip_ws ?tail = ?tail" by simp
    moreover from Cons.prems n Cons have "length (separate (map stringify_value xs)) < k" by simp
    with Cons.prems(1) Cons Cons.IH [of k]
    have "parse_elements k ?tail = Some (xs, rest)" by simp
    ultimately show ?thesis using n Cons by (simp add: is_ws_def)
  qed
qed

lemma skip_ws_quote [simp]: "skip_ws (quote k @ rest) = quote k @ rest"
  by (simp add: quote_def is_ws_def)

lemma skip_ws_colon [simp]: "skip_ws (CHR '':'' # rest) = CHR '':'' # rest"
  by (simp add: is_ws_def)

lemma parse_members_separate:
  assumes "\<forall>(k, v) \<in> set kvs. round_trips v" and "kvs \<noteq> []"
    and "length (separate (map (\<lambda>(k, v). quote k @ CHR '':'' # stringify_value v) kvs)) < n"
  shows "parse_members n
           (separate (map (\<lambda>(k, v). quote k @ CHR '':'' # stringify_value v) kvs) @ CHR ''}'' # rest)
         = Some (kvs, rest)"
  using assms
proof (induction kvs arbitrary: n)
  case Nil
  then show ?case by simp
next
  case (Cons kv xs)
  obtain k v where kv: "kv = (k, v)" by (cases kv) auto
  from Cons.prems(3) obtain m where n: "n = Suc m" by (cases n) auto
  from Cons.prems(1) kv have rt: "round_trips v" by simp
  let ?member = "\<lambda>(k, v). quote k @ CHR '':'' # stringify_value v"
  have key: "parse_chars (concat (map escape_char k) @ CHR 0x22 # CHR '':'' # r) =
      Some (k, CHR '':'' # r)" for r
    by (rule parse_chars_quote)
  show ?case
  proof (cases xs)
    case Nil
    from Cons.prems n Nil kv have "length (stringify_value v) \<le> m" by simp
    with rt have "parse_value m (stringify_value v @ CHR ''}'' # rest) = Some (v, CHR ''}'' # rest)"
      by (intro round_trips_D) simp_all
    with n Nil kv key show ?thesis by (simp add: quote_def is_ws_def)
  next
    case (Cons y ys)
    let ?tail = "separate (map ?member xs) @ CHR ''}'' # rest"
    from Cons.prems n Cons kv have "length (stringify_value v) \<le> m" by simp
    with rt have "parse_value m (stringify_value v @ CHR '','' # ?tail) = Some (v, CHR '','' # ?tail)"
      by (intro round_trips_D) simp_all
    moreover from Cons have "skip_ws ?tail = ?tail"
      by (cases y) (simp add: separate_Cons del: separate.simps)
    moreover from Cons.prems n Cons kv have "length (separate (map ?member xs)) < m" by simp
    with Cons.prems(1) Cons Cons.IH [of m]
    have "parse_members m ?tail = Some (xs, rest)" by simp
    ultimately show ?thesis using n Cons kv key by (simp add: quote_def is_ws_def)
  qed
qed

text \<open>Every value is read back from its own text.\<close>

lemma round_trips_all: "round_trips v"
proof (induction v)
  case JNull
  show ?case
    unfolding round_trips_def
  proof (intro allI impI)
    fix n rest assume "length (stringify_value JNull) \<le> n"
    then obtain m where "n = Suc m" by (cases n) auto
    then show "parse_value n (stringify_value JNull @ rest) = Some (JNull, rest)" by simp
  qed
next
  case (JBool b)
  show ?case
    unfolding round_trips_def
  proof (intro allI impI)
    fix n rest assume "length (stringify_value (JBool b)) \<le> n"
    then obtain m where "n = Suc m" by (cases n) (auto split: if_splits)
    then show "parse_value n (stringify_value (JBool b) @ rest) = Some (JBool b, rest)"
      by (cases b) simp_all
  qed
next
  case (JNumber i)
  show ?case
    unfolding round_trips_def
  proof (intro allI impI)
    fix n rest assume len: "length (stringify_value (JNumber i)) \<le> n" and e: "ends_number rest"
    from show_int_start [of i] obtain c cs where
      c: "show_int i = c # cs" "c = CHR ''-'' \<or> is_digit c" by blast
    with len obtain m where n: "n = Suc m" by (cases n) auto
    from c(2) have "c \<noteq> CHR 0x22" "c \<noteq> CHR ''[''" "c \<noteq> CHR ''{''" "c \<noteq> CHR ''t''"
      "c \<noteq> CHR ''f''" "c \<noteq> CHR ''n''"
      by (auto simp: is_digit_def)
    moreover from parse_number_show_int [OF e, of i] c
    have "parse_number (c # cs @ rest) = Some (i, rest)" by simp
    ultimately show "parse_value n (stringify_value (JNumber i) @ rest) = Some (JNumber i, rest)"
      using n c by simp
  qed
next
  case (JString s)
  show ?case
    unfolding round_trips_def
  proof (intro allI impI)
    fix n rest assume "length (stringify_value (JString s)) \<le> n"
    then obtain m where "n = Suc m" by (cases n) (auto simp: quote_def)
    then show "parse_value n (stringify_value (JString s) @ rest) = Some (JString s, rest)"
      by (simp add: quote_def parse_chars_quote)
  qed
next
  case (JArray vs)
  show ?case
    unfolding round_trips_def
  proof (intro allI impI)
    fix n rest assume len: "length (stringify_value (JArray vs)) \<le> n"
    then obtain m where n: "n = Suc m" by (cases n) auto
    show "parse_value n (stringify_value (JArray vs) @ rest) = Some (JArray vs, rest)"
    proof (cases vs)
      case Nil
      with n show ?thesis by (simp add: is_ws_def)
    next
      case (Cons x xs)
      from stringify_start [of x] obtain c cs where
        c: "stringify_value x = c # cs" "\<not> is_ws c" "c \<noteq> CHR '']''" by blast
      let ?body = "separate (map stringify_value vs) @ CHR '']'' # rest"
      from Cons c have body: "?body = c # (cs @ (if xs = [] then [] else CHR '','' #
          separate (map stringify_value xs)) @ CHR '']'' # rest)"
        by (simp add: separate_Cons del: separate.simps)
      from len n have "length (separate (map stringify_value vs)) < m" by simp
      with JArray Cons have "parse_elements m ?body = Some (vs, rest)"
        by (intro parse_elements_separate) simp_all
      with n c body show ?thesis by simp
    qed
  qed
next
  case (JObject kvs)
  let ?member = "\<lambda>(k, v). quote k @ CHR '':'' # stringify_value v"
  show ?case
    unfolding round_trips_def
  proof (intro allI impI)
    fix n rest assume len: "length (stringify_value (JObject kvs)) \<le> n"
    then obtain m where n: "n = Suc m" by (cases n) auto
    show "parse_value n (stringify_value (JObject kvs) @ rest) = Some (JObject kvs, rest)"
    proof (cases kvs)
      case Nil
      with n show ?thesis by (simp add: is_ws_def)
    next
      case (Cons kv xs)
      obtain k v where kv: "kv = (k, v)" by (cases kv) auto
      let ?body = "separate (map ?member kvs) @ CHR ''}'' # rest"
      from Cons kv have body: "?body = CHR 0x22 # (concat (map escape_char k) @ [CHR 0x22]) @
          CHR '':'' # stringify_value v @
          (if xs = [] then [] else CHR '','' # separate (map ?member xs)) @ CHR ''}'' # rest"
        by (simp add: separate_Cons quote_def del: separate.simps)
      have all: "\<forall>(k, v) \<in> set kvs. round_trips v"
        using JObject by (auto simp: snds.simps)
      from len n have "length (separate (map ?member kvs)) < m" by simp
      with all Cons have "parse_members m ?body = Some (kvs, rest)"
        by (intro parse_members_separate) simp_all
      with n body show ?thesis by (simp add: is_ws_def)
    qed
  qed
qed

lemma parse_json_stringify: "parse_json (stringify_value v) = Some v"
  using round_trips_D [OF round_trips_all, of v "length (stringify_value v)" "[]"]
    skip_ws_stringify [of v "[]"]
  by (simp add: parse_json_def)

subsection \<open>Histories\<close>

lemma json_message_inverse: "json_message (message_json m) = Some m"
  by (simp add: json_message_def message_json_def property_def)

lemma those_map_inverse:
  "(\<And>x. f (g x) = Some x) \<Longrightarrow> those (map (f \<circ> g) xs) = Some xs"
  by (induction xs) simp_all

lemma json_session_inverse: "json_session (session_json s) = Some s"
  by (simp add: json_session_def session_json_def property_def those_map_inverse
      json_message_inverse)

lemma json_history_inverse: "json_history (history_json h) = Some h"
  by (simp add: json_history_def history_json_def those_map_inverse json_session_inverse)

lemma JSON_parse_stringify: "JSON_parse (JSON_stringify h) = Some h"
  by (simp add: JSON_parse_def JSON_stringify_def parse_json_stringify json_history_inverse)

lemma JSON_stringify_nonempty: "JSON_stringify h \<noteq> []"
  by (simp add: JSON_stringify_def history_json_def)

subsection \<open>Saving and loading\<close>

text \<open>
  On an available, writable store, loading after saving applies \<open>parse\<close> to the text that
  \<open>stringify\<close> wrote: the key is the same and the text is not empty.
\<close>

lemma load_after_save:
  assumes "\<not> blocked ls" and "\<not> full ls" and "stringify h \<noteq> []"
  shows "loadChatHistory parse (saveChatHistory stringify h (Window ls)) =
           (case parse (stringify h) of None \<Rightarrow> [] | Some h' \<Rightarrow> h')"
  using assms by (simp add: loadChatHistory_def saveChatHistory_def)

text \<open>
  Claim C9. With a window whose store is neither blocked nor full, saving a history with
  \<open>JSON.stringify\<close> and then loading it with \<open>JSON.parse\<close> returns a history equal to the
  original in every field, for every history of the data model (strings, integer
  timestamps, booleans).
\<close>

theorem save_then_load:
  assumes "\<not> blocked ls" and "\<not> full ls"
  shows "loadChatHistory JSON_parse (saveChatHistory JSON_stringify h (Window ls)) = h"
  using load_after_save [where stringify = JSON_stringify and parse = JSON_parse and h = h,
      OF assms JSON_stringify_nonempty]
  by (simp add: JSON_parse_stringify)

text \<open>
  The text written for the example history, and a text with white space, another order of
  the properties and escapes read by the parser.
\<close>

lemma JSON_stringify_example:
  \<open>JSON_stringify history_example =
     ''[{"id":"chat-0","title":"hi","messages":[{"id":"msg-1-k3x9q2a","text":"hi","isUser":true,"timestamp":1}],"createdAt":0,"updatedAt":1}]''\<close>
  by code_simp

lemma JSON_parse_spaced_example:
  \<open>JSON_parse ''[ {"updatedAt": 1, "createdAt": 0, "messages": [], "title": "hi", "id": "chat-0"} ]'' =
     Some [\<lparr> sid = ''chat-0'', title = ''hi'', messages = [], createdAt = 0, updatedAt = 1 \<rparr>]\<close>
  by code_simp

lemma parse_json_escapes_example:
  "parse_json ([CHR 0x22, CHR 0x5C] @ ''u0041'' @ [CHR 0x5C, CHR ''n'', CHR 0x22]) =
     Some (JString [CHR ''A'', CHR 0x0A])"
  by code_simp

text \<open>One session with one message, saved into an empty store.\<close>

theorem save_then_load_witness:
  "loadChatHistory JSON_parse
     (saveChatHistory JSON_stringify history_example window_example) = history_example"
  using save_then_load [of "\<lparr> items = Map.empty, blocked = False, full = False \<rparr>" history_example]
  by (simp add: window_example_def)

section \<open>Properties of the streaming request pipeline\<close>

subsection \<open>The rendered messages after a manager call\<close>

lemma find_map_sid:
  assumes "\<And>s. sid (f s) = sid s"
  shows "find (\<lambda>s. Some (sid s) = cur) (map f xs) = map_option f (find (\<lambda>s. Some (sid s) = cur) xs)"
  by (induction xs) (simp_all add: assms)

lemma find_current_Some:
  "x \<in> session_ids st \<Longrightarrow> currentChatSessionId st = Some x \<Longrightarrow>
   \<exists>s. find (\<lambda>s. Some (sid s) = currentChatSessionId st) (chatSessions st) = Some s \<and> sid s = x"
  by (cases "find (\<lambda>s. Some (sid s) = currentChatSessionId st) (chatSessions st)")
     (auto simp: session_ids_def find_None_iff dest: find_Some_iff[THEN iffD1])

lemma current_messages_add_found:
  assumes "\<not> falsy_id (currentChatSessionId st)"
    and "find (\<lambda>s. Some (sid s) = currentChatSessionId st) (chatSessions st) = Some s"
  shows "currentChatMessages (addMessageToCurrentChat newId ts upd txt u st) =
         messages s @ [\<lparr> mid = newId, mtext = txt, isUser = u, timestamp = ts \<rparr>]"
proof -
  from assms(2) have "Some (sid s) = currentChatSessionId st"
    by (auto simp: find_Some_iff)
  with assms show ?thesis
    by (simp add: currentChatMessages_def addMessageToCurrentChat_def Let_def
        find_map_sid add_to_session_def)
qed

lemma current_messages_add:
  assumes "currentChatSessionId st = Some x" and "x \<noteq> []" and "x \<in> session_ids st"
  shows "currentChatMessages (addMessageToCurrentChat newId ts upd txt u st) =
         currentChatMessages st @ [\<lparr> mid = newId, mtext = txt, isUser = u, timestamp = ts \<rparr>]"
proof -
  from find_current_Some [OF assms(3,1)] obtain s where
    s: "find (\<lambda>s. Some (sid s) = currentChatSessionId st) (chatSessions st) = Some s"
    by auto
  from assms have "\<not> falsy_id (currentChatSessionId st)"
    by (simp add: falsy_id_def)
  from current_messages_add_found [OF this s] s show ?thesis
    by (simp add: currentChatMessages_def)
qed

lemma messages_update_in_session:
  "messages (update_in_session cur ts upd t s) =
     (if Some (sid s) = cur \<and> messages s \<noteq> [] \<and> \<not> isUser (last (messages s))
      then butlast (messages s) @ [(last (messages s)) \<lparr> mtext := t, timestamp := ts \<rparr>]
      else messages s)"
proof (cases "messages s" rule: rev_cases)
  case Nil
  then show ?thesis by (simp add: update_in_session_def)
next
  case (snoc ms m)
  then show ?thesis by (simp add: update_in_session_def Let_def nat_diff_distrib')
qed

lemma current_messages_update:
  assumes "\<not> falsy_id (currentChatSessionId st)"
  shows "currentChatMessages (updateLastAIMessage ts upd t st) =
     (if currentChatMessages st \<noteq> [] \<and> \<not> isUser (last (currentChatMessages st))
      then butlast (currentChatMessages st) @
             [(last (currentChatMessages st)) \<lparr> mtext := t, timestamp := ts \<rparr>]
      else currentChatMessages st)"
proof (cases "find (\<lambda>s. Some (sid s) = currentChatSessionId st) (chatSessions st)")
  case None
  with assms show ?thesis
    by (simp add: currentChatMessages_def updateLastAIMessage_def find_map_sid)
next
  case (Some s)
  then have "Some (sid s) = currentChatSessionId st"
    by (auto simp: find_Some_iff)
  with Some assms show ?thesis
    by (simp add: currentChatMessages_def updateLastAIMessage_def find_map_sid
        messages_update_in_session)
qed

lemma has_current_not_falsy: "has_current st \<Longrightarrow> \<not> falsy_id (currentChatSessionId st)"
  by (auto simp: has_current_def falsy_id_def split: option.splits)

lemma has_current_add [simp]:
  "has_current (addMessageToCurrentChat newId ts upd txt u st) = has_current st"
  by (simp add: has_current_def split: option.splits)

lemma has_current_update [simp]:
  "has_current (updateLastAIMessage ts upd t st) = has_current st"
  by (simp add: has_current_def split: option.splits)

lemma call_add_frame [simp]:
  "has_current (chatHistory (call_add env txt u a)) = has_current (chatHistory a)"
  "toasts (call_add env txt u a) = toasts a"
  "isSendingMessage (call_add env txt u a) = isSendingMessage a"
  "console (call_add env txt u a) = console a"
  "calls (call_add env txt u a) = Suc (calls a)"
  by (simp_all add: call_add_def Let_def)

lemma call_update_frame [simp]:
  "has_current (chatHistory (call_update env t a)) = has_current (chatHistory a)"
  "toasts (call_update env t a) = toasts a"
  "isSendingMessage (call_update env t a) = isSendingMessage a"
  "console (call_update env t a) = console a"
  "calls (call_update env t a) = Suc (calls a)"
  by (simp_all add: call_update_def Let_def)

lemma shown_record_updates [simp]:
  "shown (a \<lparr> toasts := ts \<rparr>) = shown a"
  "shown (a \<lparr> console := c \<rparr>) = shown a"
  "shown (a \<lparr> isSendingMessage := b \<rparr>) = shown a"
  by (simp_all add: shown_def)

lemma shown_call_add:
  assumes "has_current (chatHistory a)"
  shows "shown (call_add env txt u a) =
         shown a @ [\<lparr> mid = generateMessageId (idNow (env (calls a))) (suffix (env (calls a))),
                      mtext = txt, isUser = u, timestamp = tsNow (env (calls a)) \<rparr>]"
proof -
  from assms obtain x where "currentChatSessionId (chatHistory a) = Some x" "x \<noteq> []"
    "x \<in> session_ids (chatHistory a)"
    by (auto simp: has_current_def split: option.splits)
  then show ?thesis
    by (simp add: shown_def call_add_def Let_def current_messages_add)
qed

lemma shown_call_update:
  assumes "has_current (chatHistory a)"
  shows "shown (call_update env t a) =
     (if shown a \<noteq> [] \<and> \<not> isUser (last (shown a))
      then butlast (shown a) @
             [(last (shown a)) \<lparr> mtext := t, timestamp := tsNow (env (calls a)) \<rparr>]
      else shown a)"
  using has_current_not_falsy [OF assms]
  by (simp add: shown_def call_update_def Let_def current_messages_update)

lemma shown_call_update_answering:
  assumes "has_current (chatHistory a)" and "answering a"
  shows "shown (call_update env t a) =
           butlast (shown a) @
             [(last (shown a)) \<lparr> mtext := t, timestamp := tsNow (env (calls a)) \<rparr>]"
  using assms by (simp add: shown_call_update answering_def)

subsection \<open>The read loop keeps its invariant\<close>

lemma streaming_console [simp]:
  "streaming e ts f (a \<lparr> console := c \<rparr>) = streaming e ts f a"
  by (simp add: streaming_def answering_def)

lemma streaming_call_update:
  assumes "streaming e ts f a"
  shows "streaming e ts f (call_update env t a)"
  using assms by (simp add: streaming_def answering_def shown_call_update)

lemma try_record_unfold:
  "try_record parse env line acc a =
     (case parse (drop 6 line) of
        Raises \<Rightarrow> Inl SyntaxError
      | ReturnsNull \<Rightarrow> Inl TypeError
      | Returns d \<Rightarrow>
          if truthy (data_error d)
          then (case str (data_error d) of
                  None \<Rightarrow> Inl TypeError | Some message \<Rightarrow> Inl (Error message))
          else if truthy (data_content d)
          then (case str (data_content d) of
                  None \<Rightarrow> Inl TypeError
                | Some c \<Rightarrow> Inr (acc @ c, call_update env (acc @ c) a, truthy (data_done d)))
          else Inr (acc, a, truthy (data_done d)))"
  by (simp add: try_record_def Let_def)

lemma streaming_try_record:
  assumes "try_record parse env line acc a = Inr (acc', a', b)" and "streaming e ts f a"
  shows "streaming e ts f a'"
  using assms
  by (auto simp: try_record_unfold streaming_call_update
      split: parsed.splits option.splits if_splits)

lemma streaming_process_lines:
  "streaming e ts f a \<Longrightarrow> streaming e ts f (snd (process_lines parse env ls acc a))"
proof (induction ls arbitrary: acc a)
  case Nil
  then show ?case by simp
next
  case (Cons line ls)
  show ?case
  proof (cases "take 6 line = ''data: ''")
    case False
    with Cons show ?thesis by simp
  next
    case True
    show ?thesis
    proof (cases "try_record parse env line acc a")
      case (Inl parseError)
      with True Cons show ?thesis by simp
    next
      case (Inr r)
      obtain acc' a' b where r: "r = (acc', a', b)" by (cases r) auto
      with Inr Cons.prems have "streaming e ts f a'"
        by (auto intro: streaming_try_record)
      with True Inr r Cons.IH show ?thesis by simp
    qed
  qed
qed

lemma streaming_read_loop:
  "streaming e ts f a \<Longrightarrow> streaming e ts f (snd (snd (read_loop parse env rs acc a)))"
proof (induction rs arbitrary: acc a)
  case ReadDone
  then show ?case by simp
next
  case ReadRejected
  then show ?case by simp
next
  case (ReadValue chunk rs)
  obtain acc' a' where p: "process_lines parse env (split_nl chunk) acc a = (acc', a')"
    by (cases "process_lines parse env (split_nl chunk) acc a") auto
  with ReadValue.prems have "streaming e ts f a'"
    using streaming_process_lines [of e ts f a parse env "split_nl chunk" acc] by simp
  with p ReadValue.IH show ?case by simp
qed

lemma streaming_after_add:
  assumes "has_current (chatHistory a)"
  shows "streaming (shown a) (toasts a) (isSendingMessage a) (call_add env txt False a)"
  using assms by (simp add: streaming_def answering_def shown_call_add)

lemma try_send_streaming:
  assumes "has_current (chatHistory a)"
  shows "streaming (shown a) (toasts a) (isSendingMessage a) (snd (try_send parse env resp a))"
proof -
  let ?a = "call_add env [] False a"
  have st: "streaming (shown a) (toasts a) (isSendingMessage a) ?a"
    using assms by (rule streaming_after_add)
  show ?thesis
  proof (cases resp)
    case FetchRejected
    with st show ?thesis by (simp add: try_send_def Let_def)
  next
    case (Response status body)
    show ?thesis
    proof (cases body)
      case None
      with Response st show ?thesis by (simp add: try_send_def Let_def)
    next
      case (Some rs)
      obtain e acc a' where r: "read_loop parse env rs [] ?a = (e, acc, a')"
        by (cases "read_loop parse env rs [] ?a") auto
      with streaming_read_loop [OF st, of parse env rs "[]"]
      have "streaming (shown a) (toasts a) (isSendingMessage a) a'" by simp
      with Response Some r st show ?thesis
        by (simp add: try_send_def Let_def split: option.splits)
    qed
  qed
qed

subsection \<open>The accumulator does not depend on the state\<close>

lemma try_record_two_states:
  "(\<exists>e. try_record parse env line acc a = Inl e \<and> try_record parse env line acc b = Inl e)
   \<or> (\<exists>acc' a' b' brk. try_record parse env line acc a = Inr (acc', a', brk)
          \<and> try_record parse env line acc b = Inr (acc', b', brk))"
  by (simp add: try_record_unfold split: parsed.splits option.splits)

lemma process_lines_acc_indep:
  "fst (process_lines parse env ls acc a) = fst (process_lines parse env ls acc b)"
proof (induction ls arbitrary: acc a b)
  case Nil
  show ?case by simp
next
  case (Cons line ls)
  show ?case
  proof (cases "take 6 line = ''data: ''")
    case False
    with Cons.IH [of acc a b] show ?thesis by simp
  next
    case True
    from try_record_two_states [of parse env line acc a b] show ?thesis
    proof (elim disjE exE conjE)
      fix e
      assume "try_record parse env line acc a = Inl e" "try_record parse env line acc b = Inl e"
      with True
        Cons.IH [of acc "a \<lparr> console := console a @ [Warn line e] \<rparr>"
                        "b \<lparr> console := console b @ [Warn line e] \<rparr>"]
      show ?thesis by simp
    next
      fix acc' a' b' brk
      assume "try_record parse env line acc a = Inr (acc', a', brk)"
        "try_record parse env line acc b = Inr (acc', b', brk)"
      with True Cons.IH [of acc' a' b'] show ?thesis by simp
    qed
  qed
qed

lemma read_loop_indep:
  "fst (read_loop parse env rs acc a) = fst (read_loop parse env rs acc b)
   \<and> fst (snd (read_loop parse env rs acc a)) = fst (snd (read_loop parse env rs acc b))"
proof (induction rs arbitrary: acc a b)
  case ReadDone
  show ?case by simp
next
  case ReadRejected
  show ?case by simp
next
  case (ReadValue chunk rs)
  obtain acc1 a1 where pa: "process_lines parse env (split_nl chunk) acc a = (acc1, a1)"
    by (cases "process_lines parse env (split_nl chunk) acc a") auto
  obtain acc2 b1 where pb: "process_lines parse env (split_nl chunk) acc b = (acc2, b1)"
    by (cases "process_lines parse env (split_nl chunk) acc b") auto
  from pa pb process_lines_acc_indep [of parse env "split_nl chunk" acc a b]
  have "acc1 = acc2" by simp
  with pa pb ReadValue.IH [of acc1 a1 b1] show ?case by simp
qed

lemma try_send_thrown_indep:
  "fst (try_send parse env resp a) = fst (try_send parse env resp b)"
proof (cases resp)
  case FetchRejected
  then show ?thesis by (simp add: try_send_def Let_def)
next
  case (Response status body)
  show ?thesis
  proof (cases body)
    case None
    with Response show ?thesis by (simp add: try_send_def Let_def)
  next
    case (Some rs)
    obtain e1 acc1 a1 where ra:
      "read_loop parse env rs [] (call_add env [] False a) = (e1, acc1, a1)"
      by (cases "read_loop parse env rs [] (call_add env [] False a)") auto
    obtain e2 acc2 b1 where rb:
      "read_loop parse env rs [] (call_add env [] False b) = (e2, acc2, b1)"
      by (cases "read_loop parse env rs [] (call_add env [] False b)") auto
    from ra rb
      read_loop_indep [of parse env rs "[]" "call_add env [] False a" "call_add env [] False b"]
    have "e1 = e2" "acc1 = acc2" by simp_all
    with Response Some ra rb show ?thesis
      by (simp add: try_send_def Let_def split: option.splits)
  qed
qed

subsection \<open>The failure path\<close>

text \<open>
  Whenever an exception leaves the outer \<open>try\<close>, the send ends with the user message and
  the apology as the last two rendered messages, one error toast between the loading toast
  and its dismissal, and the flag cleared.
\<close>

lemma send_failure:
  assumes hc: "has_current (chatHistory a)"
    and thrown: "fst (try_send parse env resp a) = Some e"
  shows "map mtext (shown (handleSendMessage parse env txt resp a)) =
           map mtext (shown a) @ [txt, apology]"
    and "map isUser (shown (handleSendMessage parse env txt resp a)) =
           map isUser (shown a) @ [True, False]"
    and "toasts (handleSendMessage parse env txt resp a) =
           toasts a @ [ShowLoading ''Hikari is thinking...'', ShowError failure_notice,
                       DismissToast]"
    and "isSendingMessage (handleSendMessage parse env txt resp a) = False"
proof -
  let ?a3 = "(call_add env txt True a)
               \<lparr> isSendingMessage := True,
                 toasts := toasts a @ [ShowLoading ''Hikari is thinking...''] \<rparr>"
  obtain th a4 where t: "try_send parse env resp ?a3 = (th, a4)"
    by (cases "try_send parse env resp ?a3") auto
  from thrown try_send_thrown_indep [of parse env resp ?a3 a] t have th: "th = Some e"
    by simp
  from hc have hc3: "has_current (chatHistory ?a3)" by simp
  from try_send_streaming [OF hc3, of parse env resp] t
  have s4: "streaming (shown ?a3) (toasts ?a3) True a4" by simp
  have sh3: "shown ?a3 = shown a @
      [\<lparr> mid = generateMessageId (idNow (env (calls a))) (suffix (env (calls a))),
         mtext = txt, isUser = True, timestamp = tsNow (env (calls a)) \<rparr>]"
    using hc by (simp add: shown_call_add)
  have final: "handleSendMessage parse env txt resp a =
      (call_update env apology
         (a4 \<lparr> console := console a4 @ [ConsoleError e],
               toasts := toasts a4 @ [ShowError failure_notice] \<rparr>))
        \<lparr> toasts := toasts a4 @ [ShowError failure_notice, DismissToast],
          isSendingMessage := False \<rparr>"
    using t th by (simp add: handleSendMessage_def Let_def)
  from s4 have hc4: "has_current (chatHistory a4)" and an4: "answering a4"
    and bl4: "butlast (shown a4) = shown ?a3" and to4: "toasts a4 = toasts ?a3"
    by (simp_all add: streaming_def)
  have sh5: "shown (call_update env apology
         (a4 \<lparr> console := console a4 @ [ConsoleError e],
               toasts := toasts a4 @ [ShowError failure_notice] \<rparr>)) =
      shown ?a3 @ [(last (shown a4)) \<lparr> mtext := apology, timestamp := tsNow (env (calls a4)) \<rparr>]"
    using hc4 an4 bl4 by (simp add: shown_call_update answering_def)
  from an4 have nu: "\<not> isUser (last (shown a4))" by (simp add: answering_def)
  show "map mtext (shown (handleSendMessage parse env txt resp a)) =
           map mtext (shown a) @ [txt, apology]"
    using final sh5 sh3 by simp
  show "map isUser (shown (handleSendMessage parse env txt resp a)) =
           map isUser (shown a) @ [True, False]"
    using final sh5 sh3 nu by simp
  show "toasts (handleSendMessage parse env txt resp a) =
           toasts a @ [ShowLoading ''Hikari is thinking...'', ShowError failure_notice,
                       DismissToast]"
    using final to4 by simp
  show "isSendingMessage (handleSendMessage parse env txt resp a) = False"
    using final by simp
qed

subsection \<open>Evaluating a send on given chunks\<close>

lemma split_nl_line: "CHR 0x0A \<notin> set l \<Longrightarrow> split_nl l = [l]"
  by (induction l) auto

lemma split_nl_append:
  "CHR 0x0A \<notin> set l \<Longrightarrow> split_nl (l @ CHR 0x0A # rest) = l # split_nl rest"
  by (induction l) auto

lemmas record_values =
  content_record_def error_record_def done_record_def js_string_def js_undefined_def
  js_boolean_def

lemmas send_unfold =
  handleSendMessage_def try_send_def Let_def ok_def try_record_unfold record_values
  split_nl_append split_nl_line shown_call_add shown_call_update butlast_append

lemma has_current_example: "has_current (chatHistory app_example)"
  by (simp add: app_example_def initialize_def initial_manager_def createNewChatSession_def
      has_current_def session_ids_def Let_def)

lemma fields_example [simp]:
  "toasts app_example = []" "console app_example = []" "isSendingMessage app_example = False"
  by (simp_all add: app_example_def)

lemma shown_example: "shown app_example = []"
  by (simp add: shown_def currentChatMessages_def app_example_def initialize_def
      initial_manager_def createNewChatSession_def Let_def)

subsection \<open>HTTP failure\<close>

text \<open>
  Claim C8. For every text, when the backend answers with status 500 and there is a current
  session, after the send the rendered messages are the earlier ones, then the user message
  with that text, then an assistant message whose text is the apology; the sending flag is
  false.
\<close>

theorem http_500_ends_in_apology:
  assumes "has_current (chatHistory a)"
  shows "map mtext (shown (handleSendMessage parse env txt (Response 500 body) a)) =
           map mtext (shown a) @ [txt, apology]
       \<and> map isUser (shown (handleSendMessage parse env txt (Response 500 body) a)) =
           map isUser (shown a) @ [True, False]
       \<and> isSendingMessage (handleSendMessage parse env txt (Response 500 body) a) = False"
proof -
  have "fst (try_send parse env (Response 500 body) a) =
          Some (Error (''HTTP error! status: '' @ show_nat 500))"
    by (simp add: try_send_def Let_def ok_def)
  from send_failure(1,2,4) [OF assms this] show ?thesis by simp
qed

text \<open>The scenario of the specification on the fresh session of an empty store.\<close>

theorem http_500_ends_in_apology_witness:
  "map mtext (shown (handleSendMessage parse_example env_example ''write a hello world''
      (Response 500 None) app_example)) = [''write a hello world'', apology]
   \<and> isSendingMessage (handleSendMessage parse_example env_example ''write a hello world''
      (Response 500 None) app_example) = False"
  using http_500_ends_in_apology [OF has_current_example, of parse_example env_example
      "''write a hello world''" None]
  by (simp add: shown_example)

subsection \<open>Empty response\<close>

text \<open>
  A stream in which no record has a truthy \<open>content\<close> leaves the accumulator empty.
\<close>

lemma process_lines_no_content:
  "\<forall>line \<in> set ls. take 6 line = ''data: '' \<longrightarrow> no_content parse line \<Longrightarrow>
   fst (process_lines parse env ls acc a) = acc"
proof (induction ls arbitrary: a)
  case Nil
  show ?case by simp
next
  case (Cons line ls)
  show ?case
  proof (cases "take 6 line = ''data: ''")
    case False
    with Cons show ?thesis by simp
  next
    case True
    with Cons.prems have nc: "no_content parse line" by simp
    from Cons.prems have rest:
      "\<forall>line \<in> set ls. take 6 line = ''data: '' \<longrightarrow> no_content parse line" by simp
    from nc have "(\<exists>e. try_record parse env line acc a = Inl e)
        \<or> (\<exists>brk. try_record parse env line acc a = Inr (acc, a, brk))"
      by (auto simp: no_content_def try_record_unfold split: parsed.splits option.splits)
    then show ?thesis
    proof (elim disjE exE)
      fix e assume "try_record parse env line acc a = Inl e"
      with True Cons.IH [OF rest] show ?thesis by simp
    next
      fix brk assume "try_record parse env line acc a = Inr (acc, a, brk)"
      with True Cons.IH [OF rest] show ?thesis by simp
    qed
  qed
qed

lemma read_loop_no_content:
  "\<forall>line \<in> set (records_of rs). no_content parse line \<Longrightarrow>
   fst (snd (read_loop parse env rs acc a)) = acc"
proof (induction rs arbitrary: a)
  case ReadDone
  show ?case by simp
next
  case ReadRejected
  show ?case by simp
next
  case (ReadValue chunk rs)
  obtain acc' a' where p: "process_lines parse env (split_nl chunk) acc a = (acc', a')"
    by (cases "process_lines parse env (split_nl chunk) acc a") auto
  from ReadValue.prems
  have "\<forall>line \<in> set (split_nl chunk). take 6 line = ''data: '' \<longrightarrow> no_content parse line"
    by (simp add: records_of_def)
  from process_lines_no_content [OF this, of env acc a] p have "acc' = acc" by simp
  moreover from ReadValue.prems have "\<forall>line \<in> set (records_of rs). no_content parse line"
    by (simp add: records_of_def)
  ultimately show ?case using p ReadValue.IH by simp
qed

lemma accumulated_no_content:
  "\<forall>line \<in> set (records_of rs). no_content parse line \<Longrightarrow> accumulated parse env rs a = []"
  by (simp add: accumulated_def read_loop_no_content)

text \<open>
  Claim C7. For every send with a current session whose request succeeds (a status from 200
  to 299 and a readable body) and whose read loop ends with the accumulator still empty, the
  failure path is taken: the last rendered message is the assistant message with the apology
  as its text, and the toasts of the send are the loading toast, exactly one error toast and
  the dismissal.
\<close>

theorem empty_response_fails:
  assumes "has_current (chatHistory a)" and "ok status"
    and "accumulated parse env rs a = []"
  shows "map mtext (shown (handleSendMessage parse env txt (Response status (Some rs)) a)) =
           map mtext (shown a) @ [txt, apology]
       \<and> map isUser (shown (handleSendMessage parse env txt (Response status (Some rs)) a)) =
           map isUser (shown a) @ [True, False]
       \<and> toasts (handleSendMessage parse env txt (Response status (Some rs)) a) =
           toasts a @ [ShowLoading ''Hikari is thinking...'', ShowError failure_notice,
                       DismissToast]"
proof -
  let ?a = "call_add env [] False a"
  obtain e acc a' where r: "read_loop parse env rs [] ?a = (e, acc, a')"
    by (cases "read_loop parse env rs [] ?a") auto
  from read_loop_indep [of parse env rs "[]" ?a a] r assms(3) have "acc = []"
    by (simp add: accumulated_def)
  with r assms(2) have "\<exists>x. fst (try_send parse env (Response status (Some rs)) a) = Some x"
    by (cases e) (simp_all add: try_send_def Let_def)
  then obtain x where "fst (try_send parse env (Response status (Some rs)) a) = Some x" ..
  from send_failure(1,2,3) [OF assms(1) this] show ?thesis by simp
qed

text \<open>A stream that only says \<open>done\<close>.\<close>

theorem empty_response_fails_witness:
  \<open>accumulated parse_example env_example
      (ReadValue (''data: {"done":true}'' @ [CHR 0x0A]) ReadDone) app_example = []
   \<and> map mtext (shown (handleSendMessage parse_example env_example ''hi''
      (Response 200 (Some (ReadValue (''data: {"done":true}'' @ [CHR 0x0A]) ReadDone)))
      app_example)) = [''hi'', apology]
   \<and> toasts (handleSendMessage parse_example env_example ''hi''
      (Response 200 (Some (ReadValue (''data: {"done":true}'' @ [CHR 0x0A]) ReadDone)))
      app_example) =
       [ShowLoading ''Hikari is thinking...'', ShowError failure_notice, DismissToast]\<close>
proof -
  have acc: \<open>accumulated parse_example env_example
      (ReadValue (''data: {"done":true}'' @ [CHR 0x0A]) ReadDone) app_example = []\<close>
    by (simp add: accumulated_def split_nl_append split_nl_line try_record_unfold
        parse_example_def record_values)
  have ok: "ok 200" by (simp add: ok_def)
  from acc empty_response_fails [OF has_current_example ok acc, of "''hi''"]
  show ?thesis by (simp add: shown_example)
qed

subsection \<open>Accumulation\<close>

text \<open>
  Claim C5. With a current session and a successful request whose stream delivers the three
  newline-terminated lines \<open>data: {"content":"Hel"}\<close>, \<open>data: {"content":"lo"}\<close> and
  \<open>data: {"done":true}\<close> in two reads (the first line alone and then the other two, or
  the first two and then the third), the send ends with the user message and an assistant
  message whose text is \<open>Hello\<close>, and without an error toast. \<open>parse\<close> is any function that
  agrees with \<open>JSON.parse\<close> on the three records.
\<close>

theorem hello_stream_accumulates:
  assumes \<open>has_current (chatHistory a)\<close>
    and \<open>parse ''{"content":"Hel"}'' = Returns (content_record ''Hel'')\<close>
    and \<open>parse ''{"content":"lo"}'' = Returns (content_record ''lo'')\<close>
    and \<open>parse ''{"done":true}'' = Returns done_record\<close>
    and \<open>rs = ReadValue (''data: {"content":"Hel"}'' @ [CHR 0x0A])
                 (ReadValue (''data: {"content":"lo"}'' @ [CHR 0x0A] @
                             ''data: {"done":true}'' @ [CHR 0x0A]) ReadDone)
          \<or> rs = ReadValue (''data: {"content":"Hel"}'' @ [CHR 0x0A] @
                            ''data: {"content":"lo"}'' @ [CHR 0x0A])
                   (ReadValue (''data: {"done":true}'' @ [CHR 0x0A]) ReadDone)\<close>
  shows \<open>map mtext (shown (handleSendMessage parse env txt (Response 200 (Some rs)) a)) =
           map mtext (shown a) @ [txt, ''Hello'']
       \<and> map isUser (shown (handleSendMessage parse env txt (Response 200 (Some rs)) a)) =
           map isUser (shown a) @ [True, False]
       \<and> toasts (handleSendMessage parse env txt (Response 200 (Some rs)) a) =
           toasts a @ [ShowLoading ''Hikari is thinking...'', DismissToast]\<close>
  using assms(5)
proof
  assume \<open>rs = ReadValue (''data: {"content":"Hel"}'' @ [CHR 0x0A])
                 (ReadValue (''data: {"content":"lo"}'' @ [CHR 0x0A] @
                             ''data: {"done":true}'' @ [CHR 0x0A]) ReadDone)\<close>
  with assms(1-4) show ?thesis
    by (simp add: handleSendMessage_def try_send_def Let_def ok_def try_record_unfold
        record_values split_nl_append split_nl_line shown_call_add shown_call_update
        butlast_append)
next
  assume \<open>rs = ReadValue (''data: {"content":"Hel"}'' @ [CHR 0x0A] @
                            ''data: {"content":"lo"}'' @ [CHR 0x0A])
                   (ReadValue (''data: {"done":true}'' @ [CHR 0x0A]) ReadDone)\<close>
  with assms(1-4) show ?thesis
    by (simp add: handleSendMessage_def try_send_def Let_def ok_def try_record_unfold
        record_values split_nl_append split_nl_line shown_call_add shown_call_update
        butlast_append)
qed

text \<open>The first of the two groupings on the fresh session of an empty store.\<close>

theorem hello_stream_accumulates_witness:
  \<open>map mtext (shown (handleSendMessage parse_example env_example ''hi''
      (Response 200 (Some (ReadValue (''data: {"content":"Hel"}'' @ [CHR 0x0A])
                 (ReadValue (''data: {"content":"lo"}'' @ [CHR 0x0A] @
                             ''data: {"done":true}'' @ [CHR 0x0A]) ReadDone)))) app_example))
     = [''hi'', ''Hello'']\<close>
  using hello_stream_accumulates [OF has_current_example, of parse_example _ env_example "''hi''"]
  by (simp add: parse_example_def shown_example)

text \<open>
  The read loop splits every chunk on its own. A record that a read boundary cuts in two is
  lost: its first part fails to parse and its second part does not start with \<open>data: \<close>.
\<close>

lemma record_cut_by_a_read_is_lost:
  \<open>map mtext (shown (handleSendMessage parse_example env_example ''hi''
      (Response 200 (Some (ReadValue (''data: {"content":"Hel"}'' @ [CHR 0x0A] @ ''data: {"con'')
                 (ReadValue (''tent":"lo"}'' @ [CHR 0x0A] @
                             ''data: {"done":true}'' @ [CHR 0x0A]) ReadDone)))) app_example))
     = [''hi'', ''Hel'']\<close>
  using has_current_example
  by (simp add: send_unfold parse_example_def shown_example)

subsection \<open>Malformed records\<close>

text \<open>
  Claim C6. With a current session and a successful request whose stream delivers the line
  \<open>data: {not valid json}\<close> followed by \<open>data: {"content":"ok"}\<close> and
  \<open>data: {"done":true}\<close>, the malformed record is skipped with a console warning, no
  exception leaves the outer \<open>try\<close> (there is no error toast), and the send ends with an
  assistant message whose text is \<open>ok\<close>. \<open>parse\<close> is any function that agrees with
  \<open>JSON.parse\<close> on the three records.
\<close>

theorem malformed_record_is_skipped:
  assumes \<open>has_current (chatHistory a)\<close>
    and \<open>parse ''{not valid json}'' = Raises\<close>
    and \<open>parse ''{"content":"ok"}'' = Returns (content_record ''ok'')\<close>
    and \<open>parse ''{"done":true}'' = Returns done_record\<close>
    and \<open>rs = ReadValue (''data: {not valid json}'' @ [CHR 0x0A] @
                        ''data: {"content":"ok"}'' @ [CHR 0x0A] @
                        ''data: {"done":true}'') ReadDone\<close>
  shows \<open>map mtext (shown (handleSendMessage parse env txt (Response 200 (Some rs)) a)) =
           map mtext (shown a) @ [txt, ''ok'']
       \<and> map isUser (shown (handleSendMessage parse env txt (Response 200 (Some rs)) a)) =
           map isUser (shown a) @ [True, False]
       \<and> toasts (handleSendMessage parse env txt (Response 200 (Some rs)) a) =
           toasts a @ [ShowLoading ''Hikari is thinking...'', DismissToast]
       \<and> console (handleSendMessage parse env txt (Response 200 (Some rs)) a) =
           console a @ [Warn ''data: {not valid json}'' SyntaxError]\<close>
  using assms by (simp add: send_unfold)

text \<open>The same stream on the fresh session of an empty store.\<close>

theorem malformed_record_is_skipped_witness:
  \<open>map mtext (shown (handleSendMessage parse_example env_example ''hi''
      (Response 200 (Some (ReadValue (''data: {not valid json}'' @ [CHR 0x0A] @
                        ''data: {"content":"ok"}'' @ [CHR 0x0A] @
                        ''data: {"done":true}'') ReadDone))) app_example)) = [''hi'', ''ok'']
   \<and> toasts (handleSendMessage parse_example env_example ''hi''
      (Response 200 (Some (ReadValue (''data: {not valid json}'' @ [CHR 0x0A] @
                        ''data: {"content":"ok"}'' @ [CHR 0x0A] @
                        ''data: {"done":true}'') ReadDone))) app_example) =
       [ShowLoading ''Hikari is thinking...'', DismissToast]\<close>
  using malformed_record_is_skipped [OF has_current_example, of parse_example _ env_example "''hi''"]
  by (simp add: parse_example_def shown_example)

subsection \<open>A record with an error field\<close>

text \<open>
  Claim C1 does not hold of the code. The \<open>throw new Error(data.error)\<close> stands inside the
  inner \<open>try\<close>, whose \<open>catch\<close> only warns on the console, so the send goes on. On a stream
  that delivers a content record and then an error record, the send completes as a success:
  the assistant message keeps the text \<open>Hi\<close>, no error toast is shown, and the error
  message appears only in the console warning.
\<close>

theorem error_record_is_swallowed:
  \<open>map mtext (shown (handleSendMessage parse_example env_example ''hi''
      (Response 200 (Some (ReadValue (''data: {"content":"Hi"}'' @ [CHR 0x0A] @
                                      ''data: {"error":"boom"}'' @ [CHR 0x0A]) ReadDone)))
      app_example)) = [''hi'', ''Hi'']
   \<and> toasts (handleSendMessage parse_example env_example ''hi''
      (Response 200 (Some (ReadValue (''data: {"content":"Hi"}'' @ [CHR 0x0A] @
                                      ''data: {"error":"boom"}'' @ [CHR 0x0A]) ReadDone)))
      app_example) = [ShowLoading ''Hikari is thinking...'', DismissToast]
   \<and> console (handleSendMessage parse_example env_example ''hi''
      (Response 200 (Some (ReadValue (''data: {"content":"Hi"}'' @ [CHR 0x0A] @
                                      ''data: {"error":"boom"}'' @ [CHR 0x0A]) ReadDone)))
      app_example) = [Warn ''data: {"error":"boom"}'' (Error ''boom'')]\<close>
  using has_current_example
  by (simp add: send_unfold parse_example_def shown_example)

end
